theory Spec2Isabelle
  imports Complex_Main "HOL-Library.Sublist"
begin

section \<open>Layers\<close>

text \<open>
  The \<open>Layer\<close> interface of the type declarations. The \<open>type\<close> field is the union
  \<open>'image' | 'generation' | 'segment'\<close>; \<open>id\<close>, \<open>type\<close> and \<open>name\<close> are prefixed because
  the bare names are taken in HOL.
\<close>

datatype LayerType = Image | Generation | Segment

record Layer =
  layer_id :: string
  layer_type :: LayerType
  layer_name :: string
  url :: string
  visible :: bool
  opacity :: real

text \<open>\<open>Array.prototype.find\<close>: the first element satisfying the predicate, or \<open>undefined\<close>.\<close>

definition find_first :: "('a \<Rightarrow> bool) \<Rightarrow> 'a list \<Rightarrow> 'a option" where
  "find_first P xs = List.find P xs"

section \<open>The overlay canvas\<close>

text \<open>
  The 2D context is modelled as a recording surface. Its drawing state holds the
  properties the application assigns; its bitmap is the sequence of paint calls applied
  to a transparent surface since the last full clear, oldest first. Each paint call
  stores the drawing state it was issued with, so equal bitmaps denote identical pixels.
  Numbers are IEEE doubles in the source and exact reals here. \<open>rect_left\<close> and
  \<open>rect_top\<close> are the corner that \<open>getBoundingClientRect()\<close> reports for the canvas.
\<close>

record Context2D =
  strokeStyle :: string
  fillStyle :: string
  lineWidth :: real
  lineCap :: string
  lineJoin :: string
  globalCompositeOperation :: string
  font :: string
  textBaseline :: string

datatype PathCmd = MoveTo real real | LineTo real real

datatype Paint =
    Stroke "PathCmd list" Context2D
  | Fill "PathCmd list" Context2D
  | StrokeRect real real real real Context2D
  | FillText string real real Context2D
  | PutImageData nat nat "Paint list"

record ImageData =
  img_width :: nat
  img_height :: nat
  img_data :: "Paint list"

record Canvas =
  cv_width :: nat
  cv_height :: nat
  rect_left :: real
  rect_top :: real
  ctx :: Context2D
  path :: "PathCmd list"
  bitmap :: "Paint list"

text \<open>
  \<open>ctx.getImageData(0, 0, canvas.width, canvas.height)\<close> copies the whole bitmap. The DOM
  raises \<open>IndexSizeError\<close> when the requested width or height is zero; that is \<open>None\<close>.
\<close>

definition getImageData :: "Canvas \<Rightarrow> ImageData option" where
  "getImageData c =
     (if cv_width c = 0 \<or> cv_height c = 0 then None
      else Some \<lparr>img_width = cv_width c, img_height = cv_height c, img_data = bitmap c\<rparr>)"

text \<open>\<open>ctx.clearRect(0, 0, canvas.width, canvas.height)\<close>: every pixel becomes transparent.\<close>

definition clearRect :: "Canvas \<Rightarrow> Canvas" where
  "clearRect c = c\<lparr>bitmap := []\<rparr>"

text \<open>
  \<open>ctx.putImageData(img, 0, 0)\<close> overwrites the pixels of the rectangle the image covers,
  ignoring compositing. An image of the canvas's own size replaces the bitmap; an image of
  another size is recorded as a paint call over what was there.
\<close>

definition putImageData :: "ImageData \<Rightarrow> Canvas \<Rightarrow> Canvas" where
  "putImageData img c =
     (if img_width img = cv_width c \<and> img_height img = cv_height c
      then c\<lparr>bitmap := img_data img\<rparr>
      else c\<lparr>bitmap := bitmap c @ [PutImageData (img_width img) (img_height img) (img_data img)]\<rparr>)"

text \<open>
  Path construction and painting. \<open>lineTo\<close> on an empty path only sets the start point,
  as the canvas standard prescribes. \<open>strokeRect\<close> and \<open>fillText\<close> paint without touching
  the current path.
\<close>

definition beginPath :: "Canvas \<Rightarrow> Canvas" where
  "beginPath c = c\<lparr>path := []\<rparr>"

definition moveTo :: "real \<Rightarrow> real \<Rightarrow> Canvas \<Rightarrow> Canvas" where
  "moveTo x y c = c\<lparr>path := path c @ [MoveTo x y]\<rparr>"

definition lineTo :: "real \<Rightarrow> real \<Rightarrow> Canvas \<Rightarrow> Canvas" where
  "lineTo x y c = c\<lparr>path := (if path c = [] then [MoveTo x y] else path c @ [LineTo x y])\<rparr>"

definition stroke :: "Canvas \<Rightarrow> Canvas" where
  "stroke c = c\<lparr>bitmap := bitmap c @ [Stroke (path c) (ctx c)]\<rparr>"

definition fill :: "Canvas \<Rightarrow> Canvas" where
  "fill c = c\<lparr>bitmap := bitmap c @ [Fill (path c) (ctx c)]\<rparr>"

definition strokeRect :: "real \<Rightarrow> real \<Rightarrow> real \<Rightarrow> real \<Rightarrow> Canvas \<Rightarrow> Canvas" where
  "strokeRect x y w h c = c\<lparr>bitmap := bitmap c @ [StrokeRect x y w h (ctx c)]\<rparr>"

definition fillText :: "string \<Rightarrow> real \<Rightarrow> real \<Rightarrow> Canvas \<Rightarrow> Canvas" where
  "fillText txt x y c = c\<lparr>bitmap := bitmap c @ [FillText txt x y (ctx c)]\<rparr>"

section \<open>Application state\<close>

datatype Tool = Cursor | Brush | Rect | Arrow | Eraser | Text

record TextInput =
  ti_x :: real
  ti_y :: real
  ti_visible :: bool

text \<open>
  The component's \<open>useState\<close> cells and refs that the annotation engine touches, as one
  record. \<open>canvasRef\<close> is \<open>None\<close> while the canvas element is not mounted (there is no layer
  to display) or has no 2D context. \<open>toasts\<close> keeps the message and kind of every
  notification raised.
\<close>

record App =
  layers :: "Layer list"
  activeLayerId :: "string option"
  annotationTool :: Tool
  brushColor :: string
  brushSize :: int
  isDrawing :: bool
  startPos :: "(real \<times> real) option"
  history :: "ImageData list"
  historyStep :: int
  snapshot :: "ImageData option"
  textInput :: TextInput
  textValueRef :: string
  canvasRef :: "Canvas option"
  toasts :: "(string \<times> string) list"

text \<open>
  A handler either runs to its end or is cut short by an uncaught DOM exception; in both
  cases the state updates made so far stay in force.
\<close>

datatype Outcome = Done App | Thrown App

fun state_of :: "Outcome \<Rightarrow> App" where
  "state_of (Done s) = s"
| "state_of (Thrown s) = s"

section \<open>History engine\<close>

text \<open>
  \<open>xs.slice(0, e)\<close>: a negative end counts from the back of the array, a large one is
  cut at its length.
\<close>

definition slice0 :: "'a list \<Rightarrow> int \<Rightarrow> 'a list" where
  "slice0 xs e =
     (if e < 0 then take (nat (max (int (length xs) + e) 0)) xs else take (nat e) xs)"

text \<open>\<open>xs[i]\<close>: \<open>undefined\<close> outside the array.\<close>

definition at_index :: "'a list \<Rightarrow> int \<Rightarrow> 'a option" where
  "at_index xs i = (if 0 \<le> i \<and> i < int (length xs) then Some (xs ! nat i) else None)"

definition saveHistory :: "App \<Rightarrow> Outcome" where
  "saveHistory s =
     (case canvasRef s of
        None \<Rightarrow> Done s
      | Some canvas \<Rightarrow>
          (case getImageData canvas of
             None \<Rightarrow> Thrown s
           | Some data \<Rightarrow>
               let newHistory = slice0 (history s) (historyStep s + 1) @ [data];
                   newHistory = (if length newHistory > 20 then tl newHistory else newHistory)
               in Done (s\<lparr>history := newHistory,
                           historyStep := int (length newHistory) - 1\<rparr>)))"

definition handleUndo :: "App \<Rightarrow> App" where
  "handleUndo s =
     (case canvasRef s of
        None \<Rightarrow> s
      | Some canvas \<Rightarrow>
          if historyStep s > 0 then
            let newStep = historyStep s - 1 in
            (case at_index (history s) newStep of
               Some img \<Rightarrow>
                 s\<lparr>historyStep := newStep,
                   canvasRef := Some (putImageData img (clearRect canvas))\<rparr>
             | None \<Rightarrow> s\<lparr>historyStep := newStep\<rparr>)
          else if historyStep s = 0 then
            s\<lparr>historyStep := -1, canvasRef := Some (clearRect canvas)\<rparr>
          else s)"

definition handleRedo :: "App \<Rightarrow> App" where
  "handleRedo s =
     (if historyStep s < int (length (history s)) - 1 then
        let newStep = historyStep s + 1 in
        (case (canvasRef s, at_index (history s) newStep) of
           (Some canvas, Some img) \<Rightarrow>
             s\<lparr>historyStep := newStep,
               canvasRef := Some (putImageData img (clearRect canvas))\<rparr>
         | _ \<Rightarrow> s\<lparr>historyStep := newStep\<rparr>)
      else s)"

text \<open>
  \<open>handleDeleteLayer\<close>. \<open>filtered[0]?.id || null\<close> is \<open>null\<close> for an empty list and for an
  empty id string.
\<close>

definition handleDeleteLayer :: "string \<Rightarrow> App \<Rightarrow> App" where
  "handleDeleteLayer i s =
     (let filtered = filter (\<lambda>l. layer_id l \<noteq> i) (layers s);
          s1 = s\<lparr>layers := filtered,
                 activeLayerId :=
                   (if Some i = activeLayerId s then
                      (case filtered of
                         [] \<Rightarrow> None
                       | l # _ \<Rightarrow> if layer_id l = [] then None else Some (layer_id l))
                    else activeLayerId s)\<rparr>
      in if i = ''annotations-layer'' then
           s1\<lparr>history := [], historyStep := -1,
              canvasRef := map_option clearRect (canvasRef s1)\<rparr>
         else s1)"

section \<open>Drawing handlers\<close>

text \<open>
  The decimal numeral a template literal prints for an integer, and the font of the text
  tool: \<open>`bold ${16 + brushSize * 2}px Inter, sans-serif`\<close>.
\<close>

definition digit :: "nat \<Rightarrow> char" where
  "digit d = ''0123456789'' ! d"

fun decimal :: "nat \<Rightarrow> string" where
  "decimal n = (if n < 10 then [digit n] else decimal (n div 10) @ [digit (n mod 10)])"

definition number_string :: "int \<Rightarrow> string" where
  "number_string i = (if i < 0 then CHR ''-'' # decimal (nat (- i)) else decimal (nat i))"

definition textFont :: "int \<Rightarrow> string" where
  "textFont brush = ''bold '' @ number_string (16 + brush * 2) @ ''px Inter, sans-serif''"

text \<open>
  \<open>String.prototype.trim\<close>. A \<open>string\<close> holds the bytes of the UTF-8 encoding, so the white
  space and line terminators of ECMAScript are byte sequences: U+0009 to U+000D, U+0020,
  U+00A0, U+1680, U+2000 to U+200A, U+2028, U+2029, U+202F, U+205F, U+3000 and U+FEFF.
  \<open>strip\<close> removes such sequences from the front, at most as many as the given bound.
\<close>

definition white_space :: "string list" where
  "white_space =
     map (\<lambda>b. [b]) [CHR 0x09, CHR 0x0A, CHR 0x0B, CHR 0x0C, CHR 0x0D, CHR 0x20] @
     [[CHR 0xC2, CHR 0xA0], [CHR 0xE1, CHR 0x9A, CHR 0x80]] @
     map (\<lambda>b. [CHR 0xE2, CHR 0x80, b])
       [CHR 0x80, CHR 0x81, CHR 0x82, CHR 0x83, CHR 0x84, CHR 0x85, CHR 0x86, CHR 0x87,
        CHR 0x88, CHR 0x89, CHR 0x8A, CHR 0xA8, CHR 0xA9, CHR 0xAF] @
     [[CHR 0xE2, CHR 0x81, CHR 0x9F], [CHR 0xE3, CHR 0x80, CHR 0x80],
      [CHR 0xEF, CHR 0xBB, CHR 0xBF]]"

fun strip :: "string list \<Rightarrow> nat \<Rightarrow> string \<Rightarrow> string" where
  "strip ws 0 s = s"
| "strip ws (Suc n) s =
     (case List.find (\<lambda>w. prefix w s) ws of
        None \<Rightarrow> s
      | Some w \<Rightarrow> strip ws n (drop (length w) s))"

definition trim :: "string \<Rightarrow> string" where
  "trim s =
     (let front = strip white_space (length s) s
      in rev (strip (map rev white_space) (length front) (rev front)))"

definition ensureAnnotationLayer :: "App \<Rightarrow> App" where
  "ensureAnnotationLayer s =
     (case find_first (\<lambda>l. layer_id l = ''annotations-layer'') (layers s) of
        None \<Rightarrow>
          s\<lparr>layers :=
              \<lparr>layer_id = ''annotations-layer'', layer_type = Segment,
               layer_name = ''Annotations'', url = [], visible = True, opacity = 1\<rparr>
              # layers s,
            activeLayerId := Some ''annotations-layer''\<rparr>
      | Some existing \<Rightarrow>
          if \<not> visible existing then
            s\<lparr>layers :=
                map (\<lambda>l. if layer_id l = layer_id existing then l\<lparr>visible := True\<rparr> else l)
                  (layers s),
              activeLayerId := Some (layer_id existing)\<rparr>
          else s)"

definition commitText :: "App \<Rightarrow> Outcome" where
  "commitText s =
     (if \<not> ti_visible (textInput s) then Done s
      else
        let txt = textValueRef s in
        if trim txt = [] then Done (s\<lparr>textInput := (textInput s)\<lparr>ti_visible := False\<rparr>\<rparr>)
        else
          let rendered =
                (case canvasRef s of
                   None \<Rightarrow> Done s
                 | Some canvas \<Rightarrow>
                     let c1 = canvas\<lparr>ctx := (ctx canvas)
                                \<lparr>fillStyle := brushColor s,
                                 globalCompositeOperation := ''source-over'',
                                 font := textFont (brushSize s),
                                 textBaseline := ''top''\<rparr>\<rparr>;
                         c2 = fillText txt (ti_x (textInput s)) (ti_y (textInput s)) c1
                     in saveHistory (s\<lparr>canvasRef := Some c2\<rparr>))
          in (case rendered of
                Thrown t \<Rightarrow> Thrown t
              | Done s1 \<Rightarrow>
                  Done (s1\<lparr>textValueRef := [],
                           textInput := (textInput s1)\<lparr>ti_visible := False\<rparr>\<rparr>)))"

text \<open>
  \<open>startDrawing\<close> for a press at client coordinates \<open>(clientX, clientY)\<close>. A pending text edit
  is committed first; with the text tool the handler then returns.
\<close>

definition startDrawing :: "real \<Rightarrow> real \<Rightarrow> App \<Rightarrow> Outcome" where
  "startDrawing clientX clientY s0 =
     (if annotationTool s0 = Cursor then Done s0
      else
        (case (if ti_visible (textInput s0) then commitText s0 else Done s0) of
           Thrown t \<Rightarrow> Thrown t
         | Done sc \<Rightarrow>
             if ti_visible (textInput s0) \<and> annotationTool s0 = Text then Done sc
             else
               let s = ensureAnnotationLayer sc in
               (case canvasRef s of
                  None \<Rightarrow> Done s
                | Some canvas \<Rightarrow>
                    let x = clientX - rect_left canvas;
                        y = clientY - rect_top canvas;
                        s1 = s\<lparr>isDrawing := True, startPos := Some (x, y)\<rparr>
                    in if annotationTool s0 = Text then
                         Done (s1\<lparr>textValueRef := [],
                                  textInput := \<lparr>ti_x = x, ti_y = y, ti_visible = True\<rparr>,
                                  isDrawing := False\<rparr>)
                       else if annotationTool s0 \<in> set [Rect, Arrow] \<and> getImageData canvas = None
                       then Thrown s1
                       else
                         let s2 = (if annotationTool s0 \<in> set [Rect, Arrow]
                                   then s1\<lparr>snapshot := getImageData canvas\<rparr> else s1);
                             c1 = moveTo x y (beginPath canvas);
                             c2 = c1\<lparr>ctx := (ctx c1)
                                    \<lparr>strokeStyle := (if annotationTool s0 = Eraser
                                                      then ''rgba(0,0,0,1)'' else brushColor s0),
                                     lineWidth := real_of_int (brushSize s0),
                                     lineCap := ''round'',
                                     lineJoin := ''round'',
                                     globalCompositeOperation :=
                                       (if annotationTool s0 = Eraser
                                        then ''destination-out'' else ''source-over'')\<rparr>\<rparr>
                         in Done (s2\<lparr>canvasRef := Some c2\<rparr>))))"

text \<open>\<open>Math.atan2\<close> on the reals.\<close>

definition atan2 :: "real \<Rightarrow> real \<Rightarrow> real" where
  "atan2 y x =
     (if 0 < x then arctan (y / x)
      else if x < 0 then (if 0 \<le> y then arctan (y / x) + pi else arctan (y / x) - pi)
      else if 0 < y then pi / 2
      else if y < 0 then - (pi / 2)
      else 0)"

definition headLength :: "int \<Rightarrow> real" where
  "headLength brush = 15 + real_of_int brush"

text \<open>\<open>drawArrow\<close>; the brush size is the component state it closes over.\<close>

definition drawArrow :: "int \<Rightarrow> Canvas \<Rightarrow> real \<Rightarrow> real \<Rightarrow> real \<Rightarrow> real \<Rightarrow> Canvas" where
  "drawArrow brush c fromX fromY toX toY =
     (let h = headLength brush;
          dx = toX - fromX;
          dy = toY - fromY;
          angle = atan2 dy dx;
          c1 = stroke (lineTo toX toY (moveTo fromX fromY (beginPath c)));
          c2 = moveTo toX toY (beginPath c1);
          c3 = lineTo (toX - h * cos (angle - pi / 6)) (toY - h * sin (angle - pi / 6)) c2;
          c4 = lineTo (toX - h * cos (angle + pi / 6)) (toY - h * sin (angle + pi / 6)) c3;
          c5 = lineTo toX toY c4;
          c6 = c5\<lparr>ctx := (ctx c5)\<lparr>fillStyle := strokeStyle (ctx c5)\<rparr>\<rparr>
      in fill c6)"

definition draw :: "real \<Rightarrow> real \<Rightarrow> App \<Rightarrow> App" where
  "draw clientX clientY s =
     (case (isDrawing s, startPos s, canvasRef s) of
        (True, Some (sx, sy), Some canvas) \<Rightarrow>
          let currentX = clientX - rect_left canvas;
              currentY = clientY - rect_top canvas;
              restored = (case snapshot s of
                            Some sn \<Rightarrow> putImageData sn canvas
                          | None \<Rightarrow> canvas)
          in if annotationTool s = Brush \<or> annotationTool s = Eraser then
               s\<lparr>canvasRef := Some (stroke (lineTo currentX currentY canvas))\<rparr>
             else if annotationTool s = Rect then
               s\<lparr>canvasRef :=
                   Some (strokeRect sx sy (currentX - sx) (currentY - sy) (beginPath restored))\<rparr>
             else if annotationTool s = Arrow then
               s\<lparr>canvasRef := Some (drawArrow (brushSize s) restored sx sy currentX currentY)\<rparr>
             else s
      | _ \<Rightarrow> s)"

definition stopDrawing :: "App \<Rightarrow> Outcome" where
  "stopDrawing s =
     (if isDrawing s then
        saveHistory
          (s\<lparr>isDrawing := False, snapshot := None,
             canvasRef :=
               map_option
                 (\<lambda>c. c\<lparr>ctx := (ctx c)\<lparr>globalCompositeOperation := ''source-over''\<rparr>\<rparr>)
                 (canvasRef s)\<rparr>)
      else Done s)"

section \<open>Export\<close>

definition addToast :: "string \<Rightarrow> string \<Rightarrow> App \<Rightarrow> App" where
  "addToast message kind s = s\<lparr>toasts := toasts s @ [(message, kind)]\<rparr>"

text \<open>The layer \<open>handleExport\<close> exports: \<open>find(...) || find(...)\<close>.\<close>

definition exportLayer :: "App \<Rightarrow> Layer option" where
  "exportLayer s =
     (case find_first (\<lambda>l. Some (layer_id l) = activeLayerId s \<and> layer_id l \<noteq> ''annotations-layer'')
             (layers s) of
        Some l \<Rightarrow> Some l
      | None \<Rightarrow> find_first (\<lambda>l. layer_type l \<noteq> Segment \<and> visible l) (layers s))"

text \<open>
  \<open>displayLayer\<close>, the layer shown under the overlay canvas: the active layer unless it is
  the annotation layer, otherwise the first visible layer that is not the annotation
  layer.
\<close>

definition displayLayer :: "App \<Rightarrow> Layer option" where
  "displayLayer s =
     (let fallback = find_first (\<lambda>l. layer_id l \<noteq> ''annotations-layer'' \<and> visible l) (layers s)
      in case find_first (\<lambda>l. Some (layer_id l) = activeLayerId s) (layers s) of
           None \<Rightarrow> fallback
         | Some activeLayer \<Rightarrow>
             if layer_id activeLayer \<noteq> ''annotations-layer'' then Some activeLayer else fallback)"

text \<open>
  What the export hands to the browser: the base layer's own data, or the base layer with
  the overlay canvas drawn over it. The composite is made once the base image has loaded;
  the model gives it at once.
\<close>

datatype Export = Plain Layer | Annotated Layer Canvas

definition handleExport :: "App \<Rightarrow> App \<times> Export option" where
  "handleExport s =
     (case exportLayer s of
        None \<Rightarrow> (addToast ''No valid image layer to export'' ''error'' s, None)
      | Some l \<Rightarrow>
          let hasAnnotations =
                (case find_first (\<lambda>a. layer_id a = ''annotations-layer'') (layers s) of
                   None \<Rightarrow> False
                 | Some a \<Rightarrow> visible a \<and> historyStep s \<ge> 0)
          in (case (hasAnnotations, canvasRef s) of
                (True, Some canvas) \<Rightarrow>
                  (addToast ''Exported with annotations!'' ''success'' s, Some (Annotated l canvas))
              | _ \<Rightarrow> (addToast ''Export started'' ''success'' s, Some (Plain l))))"

section \<open>Image service request\<close>

text \<open>
  \<open>editImage\<close> sends \<open>cleanBase64\<close> as the inline data of its request:
  \<open>imageBase64.replace(/^data:image\/(png|jpeg|webp);base64,/, "")\<close>.
\<close>

definition cleanBase64 :: "string \<Rightarrow> string" where
  "cleanBase64 imageBase64 =
     (if prefix ''data:image/png;base64,'' imageBase64 then drop 22 imageBase64
      else if prefix ''data:image/jpeg;base64,'' imageBase64 then drop 23 imageBase64
      else if prefix ''data:image/webp;base64,'' imageBase64 then drop 23 imageBase64
      else imageBase64)"

section \<open>Initial state and runs\<close>

text \<open>The initial values of the state cells; no canvas is mounted before a layer exists.\<close>

definition initial :: App where
  "initial =
     \<lparr>layers = [], activeLayerId = None, annotationTool = Cursor,
      brushColor = ''#8b5cf6'', brushSize = 4, isDrawing = False, startPos = None,
      history = [], historyStep = -1, snapshot = None,
      textInput = \<lparr>ti_x = 0, ti_y = 0, ti_visible = False\<rparr>, textValueRef = [],
      canvasRef = None, toasts = []\<rparr>"

text \<open>
  The history is well formed when the cursor is \<open>-1\<close> or an index of the list and the
  list holds at most 20 snapshots.
\<close>

definition history_inv :: "App \<Rightarrow> bool" where
  "history_inv s =
     (- 1 \<le> historyStep s \<and> historyStep s \<le> int (length (history s)) - 1 \<and>
      length (history s) \<le> 20)"

text \<open>
  The events of a session. \<open>Other f\<close> stands for every handler and effect that does not
  assign the history or its cursor (mounting and resizing the canvas, typing, tool and
  layer selection, service calls): it may change anything else.
\<close>

datatype Event =
    Press real real | Move real real | Release | TextCommit
  | Save | Undo | Redo | Delete string | Other "App \<Rightarrow> App"

fun step :: "Event \<Rightarrow> App \<Rightarrow> App" where
  "step (Press x y) s = state_of (startDrawing x y s)"
| "step (Move x y) s = draw x y s"
| "step Release s = state_of (stopDrawing s)"
| "step TextCommit s = state_of (commitText s)"
| "step Save s = state_of (saveHistory s)"
| "step Undo s = handleUndo s"
| "step Redo s = handleRedo s"
| "step (Delete i) s = handleDeleteLayer i s"
| "step (Other f) s = (f s)\<lparr>history := history s, historyStep := historyStep s\<rparr>"

definition run :: "Event list \<Rightarrow> App \<Rightarrow> App" where
  "run evs s = foldl (\<lambda>t e. step e t) s evs"

text \<open>
  A sequence of commits: the \<open>k\<close>-th snapshot is taken when the overlay canvas is the
  \<open>k\<close>-th element of the list, whatever was drawn on it since the commit before.
\<close>

definition commits :: "Canvas list \<Rightarrow> App \<Rightarrow> App" where
  "commits cs s = foldl (\<lambda>t c. state_of (saveHistory (t\<lparr>canvasRef := Some c\<rparr>))) s cs"

text \<open>React attaching a canvas element to \<open>canvasRef\<close>.\<close>

definition mount :: "Canvas \<Rightarrow> App \<Rightarrow> App" where
  "mount c s = s\<lparr>canvasRef := Some c\<rparr>"

section \<open>The specification's wording\<close>

text \<open>
  The base layer in the words of the specification: the active layer when it exists and
  is not the annotation overlay, otherwise the first visible layer that is not the
  annotation overlay.
\<close>

definition spec_base_layer :: "App \<Rightarrow> Layer option" where
  "spec_base_layer s =
     (case find_first (\<lambda>l. Some (layer_id l) = activeLayerId s \<and> layer_id l \<noteq> ''annotations-layer'')
             (layers s) of
        Some l \<Rightarrow> Some l
      | None \<Rightarrow> find_first (\<lambda>l. layer_id l \<noteq> ''annotations-layer'' \<and> visible l) (layers s))"

text \<open>\<open>first_such P xs x\<close>: \<open>x\<close> is the first element of \<open>xs\<close> that satisfies \<open>P\<close>.\<close>

definition first_such :: "('a \<Rightarrow> bool) \<Rightarrow> 'a list \<Rightarrow> 'a \<Rightarrow> bool" where
  "first_such P xs x = (\<exists>pre post. xs = pre @ x # post \<and> P x \<and> (\<forall>y\<in>set pre. \<not> P y))"

text \<open>The base layer of what an export produced.\<close>

fun base_of :: "Export \<Rightarrow> Layer" where
  "base_of (Plain l) = l"
| "base_of (Annotated l c) = l"

text \<open>
  A press with the text tool during a pending edit in the words of the specification:
  afterwards a fresh edit is open at the press point \<open>(x, y)\<close> with an empty buffer, and
  the old buffer was neither painted nor committed.
\<close>

definition fresh_edit_discarding :: "real \<Rightarrow> real \<Rightarrow> App \<Rightarrow> App \<Rightarrow> bool" where
  "fresh_edit_discarding x y s s' =
     (textInput s' = \<lparr>ti_x = x, ti_y = y, ti_visible = True\<rparr> \<and> textValueRef s' = [] \<and>
      map_option bitmap (canvasRef s') = map_option bitmap (canvasRef s) \<and>
      history s' = history s \<and> historyStep s' = historyStep s)"

section \<open>Example inputs\<close>

text \<open>A freshly mounted canvas: the default drawing state and a transparent bitmap.\<close>

definition default_ctx :: Context2D where
  "default_ctx =
     \<lparr>strokeStyle = ''#000000'', fillStyle = ''#000000'', lineWidth = 1, lineCap = ''butt'',
      lineJoin = ''miter'', globalCompositeOperation = ''source-over'',
      font = ''10px sans-serif'', textBaseline = ''alphabetic''\<rparr>"

definition blank_canvas :: "nat \<Rightarrow> nat \<Rightarrow> Canvas" where
  "blank_canvas w h =
     \<lparr>cv_width = w, cv_height = h, rect_left = 0, rect_top = 0, ctx = default_ctx,
      path = [], bitmap = []\<rparr>"

text \<open>Two overlays of one size with different strokes on them, and their snapshots.\<close>

definition overlay_a :: Canvas where
  "overlay_a = (blank_canvas 300 150)\<lparr>bitmap := [Stroke [MoveTo 1 1, LineTo 2 2] default_ctx]\<rparr>"

definition overlay_b :: Canvas where
  "overlay_b = (blank_canvas 300 150)\<lparr>bitmap := [StrokeRect 5 5 10 10 default_ctx]\<rparr>"

definition snap_a :: ImageData where
  "snap_a = \<lparr>img_width = 300, img_height = 150, img_data = bitmap overlay_a\<rparr>"

definition snap_b :: ImageData where
  "snap_b = \<lparr>img_width = 300, img_height = 150, img_data = bitmap overlay_b\<rparr>"

text \<open>
  A state two undo steps below the top of a three-entry history, and a state whose
  history is full.
\<close>

definition branched :: App where
  "branched =
     initial\<lparr>history := [snap_a, snap_b, snap_a], historyStep := 0,
             canvasRef := Some overlay_b\<rparr>"

definition full :: App where
  "full =
     initial\<lparr>history := snap_b # replicate 19 snap_a, historyStep := 19,
             canvasRef := Some overlay_b\<rparr>"

definition below_top :: App where
  "below_top = branched\<lparr>historyStep := 1\<rparr>"

text \<open>An uploaded image layer, a segmentation result and the annotation layer.\<close>

definition photo_layer :: Layer where
  "photo_layer =
     \<lparr>layer_id = ''1700000000000'', layer_type = Image, layer_name = ''photo.png'',
      url = ''data:image/png;base64,iVBORw0KGgo='', visible = True, opacity = 1\<rparr>"

definition cutout_layer :: Layer where
  "cutout_layer =
     \<lparr>layer_id = ''1700000000500'', layer_type = Segment, layer_name = ''Segment: photo.png'',
      url = ''data:image/png;base64,iVBORw0KGgp='', visible = True, opacity = 1\<rparr>"

definition annotation_layer :: Layer where
  "annotation_layer =
     \<lparr>layer_id = ''annotations-layer'', layer_type = Segment, layer_name = ''Annotations'',
      url = [], visible = True, opacity = 1\<rparr>"

definition annotated :: App where
  "annotated =
     branched\<lparr>layers := [annotation_layer, photo_layer],
              activeLayerId := Some ''annotations-layer''\<rparr>"

text \<open>A text edit open at \<open>(10, 20)\<close> with the text tool, holding the given buffer.\<close>

definition typing :: "string \<Rightarrow> App" where
  "typing buffer =
     initial\<lparr>layers := [annotation_layer, photo_layer],
             activeLayerId := Some ''annotations-layer'', annotationTool := Text,
             textInput := \<lparr>ti_x = 10, ti_y = 20, ti_visible = True\<rparr>,
             textValueRef := buffer, canvasRef := Some (blank_canvas 300 150)\<rparr>"

text \<open>The drawing state and the canvas after the text tool has painted \<open>hi\<close> there.\<close>

definition text_ctx :: Context2D where
  "text_ctx =
     default_ctx\<lparr>fillStyle := ''#8b5cf6'', font := ''bold 24px Inter, sans-serif'',
                 textBaseline := ''top''\<rparr>"

definition lettered :: Canvas where
  "lettered = (blank_canvas 300 150)\<lparr>ctx := text_ctx, bitmap := [FillText ''hi'' 10 20 text_ctx]\<rparr>"

text \<open>The same pending edit with the brush selected, and the text tool with no edit open.\<close>

definition brushing :: App where
  "brushing = (typing ''hi'')\<lparr>annotationTool := Brush\<rparr>"

definition idle :: App where
  "idle = (typing [])\<lparr>textInput := \<lparr>ti_x = 0, ti_y = 0, ti_visible = False\<rparr>\<rparr>"

definition snap_lettered :: ImageData where
  "snap_lettered = \<lparr>img_width = 300, img_height = 150, img_data = bitmap lettered\<rparr>"

text \<open>
  A segmentation result shown under the active annotation layer, and the same with the
  uploaded image still in the list.
\<close>

definition cutout_shown :: App where
  "cutout_shown =
     initial\<lparr>layers := [annotation_layer, cutout_layer],
             activeLayerId := Some ''annotations-layer'',
             canvasRef := Some (blank_canvas 300 150)\<rparr>"

definition photo_below :: App where
  "photo_below = cutout_shown\<lparr>layers := [annotation_layer, cutout_layer, photo_layer]\<rparr>"

definition photo_active :: App where
  "photo_active = annotated\<lparr>activeLayerId := Some ''1700000000000''\<rparr>"

section \<open>Canvas and array facts\<close>

lemma getImageData_Some:
  "0 < cv_width c \<Longrightarrow> 0 < cv_height c \<Longrightarrow>
   getImageData c = Some \<lparr>img_width = cv_width c, img_height = cv_height c, img_data = bitmap c\<rparr>"
  by (simp add: getImageData_def)

lemma slice0_nonneg: "0 \<le> e \<Longrightarrow> slice0 xs e = take (nat e) xs"
  by (simp add: slice0_def)

lemma length_slice0: "length (slice0 xs e) \<le> length xs"
  unfolding slice0_def by (cases "e < 0") (simp_all del: length_take, simp_all)

lemma at_index_Some: "0 \<le> i \<Longrightarrow> i < int (length xs) \<Longrightarrow> at_index xs i = Some (xs ! nat i)"
  by (simp add: at_index_def)

lemma clearRect_putImageData [simp]: "clearRect (putImageData img c) = clearRect c"
  by (simp add: clearRect_def putImageData_def)

lemma clearRect_idem [simp]: "clearRect (clearRect c) = clearRect c"
  by (simp add: clearRect_def)

lemma repaint_prior:
  "putImageData img (clearRect (c\<lparr>bitmap := b\<rparr>)) = putImageData img (clearRect c)"
  by (simp add: clearRect_def putImageData_def)

lemma putImageData_snapshot:
  "getImageData c = Some d \<Longrightarrow> putImageData d (clearRect c) = c"
  by (auto simp: getImageData_def putImageData_def clearRect_def split: if_splits)

section \<open>Committing a snapshot\<close>

lemma saveHistory_Some:
  assumes "canvasRef s = Some c" and "getImageData c = Some d"
    and "slice0 (history s) (historyStep s + 1) = kept"
  shows "saveHistory s =
           Done (if length kept < 20
                 then s\<lparr>history := kept @ [d], historyStep := int (length kept)\<rparr>
                 else s\<lparr>history := tl (kept @ [d]), historyStep := int (length kept) - 1\<rparr>)"
  using assms by (simp add: saveHistory_def Let_def)

text \<open>The guards: no canvas, nothing happens; a canvas of no area, the snapshot throws.\<close>

lemma saveHistory_unmounted: "canvasRef s = None \<Longrightarrow> saveHistory s = Done s"
  by (simp add: saveHistory_def)

lemma saveHistory_no_area:
  "canvasRef s = Some c \<Longrightarrow> cv_width c = 0 \<or> cv_height c = 0 \<Longrightarrow> saveHistory s = Thrown s"
  by (auto simp: saveHistory_def getImageData_def)

text \<open>
  C1. With the overlay canvas mounted, a cursor of at least \<open>-1\<close> and at most 20 stored
  snapshots, \<open>saveHistory\<close> keeps exactly the entries up to the cursor (\<open>kept\<close>), appends the
  snapshot \<open>d\<close> of the canvas, drops the oldest entry when that makes 21, and sets the
  cursor to the last index; the result holds at most 20 entries and ends with \<open>d\<close>.
\<close>

theorem saveHistory_commit:
  assumes canvas: "canvasRef s = Some c"
    and width: "0 < cv_width c" and height: "0 < cv_height c"
    and cur: "- 1 \<le> historyStep s"
    and bound: "length (history s) \<le> 20"
  shows "\<exists>kept d h'.
           kept = take (nat (historyStep s + 1)) (history s) \<and>
           d = \<lparr>img_width = cv_width c, img_height = cv_height c, img_data = bitmap c\<rparr> \<and>
           h' = (if length kept < 20 then kept @ [d] else tl kept @ [d]) \<and>
           saveHistory s = Done (s\<lparr>history := h', historyStep := int (length h') - 1\<rparr>) \<and>
           length h' \<le> 20 \<and> last h' = d"
proof -
  define kept where "kept = take (nat (historyStep s + 1)) (history s)"
  define d where "d = \<lparr>img_width = cv_width c, img_height = cv_height c, img_data = bitmap c\<rparr>"
  define h' where "h' = (if length kept < 20 then kept @ [d] else tl kept @ [d])"
  have k: "length kept \<le> 20" using bound by (simp add: kept_def)
  have sl: "slice0 (history s) (historyStep s + 1) = kept"
    using cur by (simp add: slice0_nonneg kept_def)
  have gd: "getImageData c = Some d"
    using width height by (simp add: getImageData_Some d_def)
  have "saveHistory s = Done (s\<lparr>history := h', historyStep := int (length h') - 1\<rparr>)"
  proof (cases "length kept < 20")
    case True
    then show ?thesis
      by (simp add: saveHistory_Some[OF canvas gd sl] h'_def)
  next
    case False
    with k have "length kept = 20" by simp
    then have "kept \<noteq> []" by auto
    with False \<open>length kept = 20\<close> show ?thesis
      by (simp add: saveHistory_Some[OF canvas gd sl] h'_def)
  qed
  moreover have "length h' \<le> 20" using k by (auto simp: h'_def)
  moreover have "last h' = d" by (simp add: h'_def)
  ultimately show ?thesis using kept_def d_def h'_def by blast
qed

text \<open>
  At \<open>branched\<close> the two entries after the cursor are discarded; at \<open>full\<close> the oldest
  entry is evicted and the cursor stays at index 19.
\<close>

theorem saveHistory_commit_witness:
  "canvasRef branched = Some overlay_b \<and> 0 < cv_width overlay_b \<and> 0 < cv_height overlay_b \<and>
   - 1 \<le> historyStep branched \<and> length (history branched) \<le> 20 \<and>
   saveHistory branched = Done (branched\<lparr>history := [snap_a, snap_b], historyStep := 1\<rparr>) \<and>
   canvasRef full = Some overlay_b \<and> - 1 \<le> historyStep full \<and> length (history full) \<le> 20 \<and>
   saveHistory full = Done (full\<lparr>history := replicate 19 snap_a @ [snap_b], historyStep := 19\<rparr>)"
proof -
  have b: "canvasRef branched = Some overlay_b" "- 1 \<le> historyStep branched"
    "length (history branched) \<le> 20"
    by (simp_all add: branched_def)
  have f: "canvasRef full = Some overlay_b" "- 1 \<le> historyStep full"
    "length (history full) \<le> 20"
    by (simp_all add: full_def)
  have o: "0 < cv_width overlay_b" "0 < cv_height overlay_b"
    by (simp_all add: overlay_b_def blank_canvas_def)
  have kb: "take (nat (historyStep branched + 1)) (history branched) = [snap_a]"
    by (simp add: branched_def)
  have kf: "take (nat (historyStep full + 1)) (history full) = snap_b # replicate 19 snap_a"
    by (simp add: full_def)
  have sb: "\<lparr>img_width = cv_width overlay_b, img_height = cv_height overlay_b,
             img_data = bitmap overlay_b\<rparr> = snap_b"
    by (simp add: snap_b_def overlay_b_def blank_canvas_def)
  from saveHistory_commit[OF b(1) o b(2,3)]
  have "saveHistory branched = Done (branched\<lparr>history := [snap_a, snap_b], historyStep := 1\<rparr>)"
    unfolding kb sb by simp
  moreover from saveHistory_commit[OF f(1) o f(2,3)]
  have "saveHistory full =
          Done (full\<lparr>history := replicate 19 snap_a @ [snap_b], historyStep := 19\<rparr>)"
    unfolding kf sb by simp
  ultimately show ?thesis using b f o by simp
qed

section \<open>Undo and redo\<close>

text \<open>
  Without a mounted canvas there is nothing to repaint: undo returns at once, redo still
  moves the cursor.
\<close>

lemma handleUndo_unmounted: "canvasRef s = None \<Longrightarrow> handleUndo s = s"
  by (simp add: handleUndo_def)

lemma handleRedo_unmounted:
  "canvasRef s = None \<Longrightarrow>
   handleRedo s =
     (if historyStep s < int (length (history s)) - 1
      then s\<lparr>historyStep := historyStep s + 1\<rparr> else s)"
  by (simp add: handleRedo_def Let_def)

text \<open>
  C2. With the overlay canvas mounted and the cursor at \<open>-1\<close> or at an index of the
  history: undo above 0 moves the cursor down and repaints from the snapshot now at the
  cursor, undo at 0 moves the cursor to \<open>-1\<close> and leaves a cleared canvas, undo at \<open>-1\<close>
  changes nothing; redo below the last index moves the cursor up and repaints from the
  snapshot now at the cursor, redo at the last index changes nothing. A repaint is a
  clear followed by a restore: its result does not depend on the bitmap that was there,
  and for a snapshot of the canvas's size the bitmap is the snapshot's data.
\<close>

theorem undo_redo_step:
  assumes canvas: "canvasRef s = Some c"
    and lo: "- 1 \<le> historyStep s" and hi: "historyStep s < int (length (history s))"
  shows "handleUndo s =
           (if 0 < historyStep s then
              s\<lparr>historyStep := historyStep s - 1,
                canvasRef := Some (putImageData (history s ! nat (historyStep s - 1)) (clearRect c))\<rparr>
            else if historyStep s = 0 then
              s\<lparr>historyStep := - 1, canvasRef := Some (clearRect c)\<rparr>
            else s) \<and>
         handleRedo s =
           (if historyStep s < int (length (history s)) - 1 then
              s\<lparr>historyStep := historyStep s + 1,
                canvasRef := Some (putImageData (history s ! nat (historyStep s + 1)) (clearRect c))\<rparr>
            else s) \<and>
         bitmap (clearRect c) = [] \<and>
         putImageData img (clearRect (c\<lparr>bitmap := b\<rparr>)) = putImageData img (clearRect c) \<and>
         bitmap (putImageData img (clearRect c)) =
           (if img_width img = cv_width c \<and> img_height img = cv_height c then img_data img
            else [PutImageData (img_width img) (img_height img) (img_data img)])"
proof (intro conjI)
  show "handleUndo s =
           (if 0 < historyStep s then
              s\<lparr>historyStep := historyStep s - 1,
                canvasRef := Some (putImageData (history s ! nat (historyStep s - 1)) (clearRect c))\<rparr>
            else if historyStep s = 0 then
              s\<lparr>historyStep := - 1, canvasRef := Some (clearRect c)\<rparr>
            else s)"
    using canvas hi by (simp add: handleUndo_def Let_def at_index_Some)
  show "handleRedo s =
           (if historyStep s < int (length (history s)) - 1 then
              s\<lparr>historyStep := historyStep s + 1,
                canvasRef := Some (putImageData (history s ! nat (historyStep s + 1)) (clearRect c))\<rparr>
            else s)"
    using canvas lo by (simp add: handleRedo_def Let_def at_index_Some)
  show "bitmap (clearRect c) = []" by (simp add: clearRect_def)
  show "putImageData img (clearRect (c\<lparr>bitmap := b\<rparr>)) = putImageData img (clearRect c)"
    by (rule repaint_prior)
  show "bitmap (putImageData img (clearRect c)) =
           (if img_width img = cv_width c \<and> img_height img = cv_height c then img_data img
            else [PutImageData (img_width img) (img_height img) (img_data img)])"
    by (simp add: clearRect_def putImageData_def)
qed

theorem undo_redo_step_witness:
  "canvasRef below_top = Some overlay_b \<and> - 1 \<le> historyStep below_top \<and>
   historyStep below_top < int (length (history below_top)) \<and>
   handleUndo below_top = below_top\<lparr>historyStep := 0, canvasRef := Some overlay_a\<rparr> \<and>
   handleRedo below_top = below_top\<lparr>historyStep := 2, canvasRef := Some overlay_a\<rparr>"
proof -
  have h: "canvasRef below_top = Some overlay_b" "- 1 \<le> historyStep below_top"
    "historyStep below_top < int (length (history below_top))"
    by (simp_all add: below_top_def branched_def)
  have p: "putImageData snap_a (clearRect overlay_b) = overlay_a"
    by (simp add: putImageData_def clearRect_def snap_a_def overlay_a_def overlay_b_def
        blank_canvas_def)
  have n: "historyStep below_top = 1" "length (history below_top) = 3"
    "history below_top ! nat (1 - 1) = snap_a"
    "history below_top ! nat (1 + 1) = snap_a"
    by (simp_all add: below_top_def branched_def)
  note t = undo_redo_step[OF h, of snap_a "[]"]
  have u: "handleUndo below_top = below_top\<lparr>historyStep := 0, canvasRef := Some overlay_a\<rparr>"
    using t[THEN conjunct1] unfolding n p by simp
  have r: "handleRedo below_top = below_top\<lparr>historyStep := 2, canvasRef := Some overlay_a\<rparr>"
    using t[THEN conjunct2, THEN conjunct1] unfolding n p by simp
  show ?thesis using h u r by blast
qed

lemma undo_bottom: "historyStep s = - 1 \<Longrightarrow> (handleUndo ^^ k) s = s"
  by (induction k) (simp_all add: handleUndo_def split: option.splits)

lemma undo_iter:
  assumes "canvasRef s = Some c" and "historyStep s = int j" and "j < length (history s)"
    and "j < k"
  shows "(handleUndo ^^ k) s = s\<lparr>historyStep := - 1, canvasRef := Some (clearRect c)\<rparr>"
  using assms
proof (induction j arbitrary: s c k)
  case 0
  then obtain k' where k: "k = Suc k'" by (cases k) auto
  have u: "handleUndo s = s\<lparr>historyStep := - 1, canvasRef := Some (clearRect c)\<rparr>"
    using 0 by (simp add: handleUndo_def)
  show ?case
    unfolding k funpow_Suc_right o_apply u by (rule undo_bottom) simp
next
  case (Suc j)
  then obtain k' where k: "k = Suc k'" and k': "j < k'" by (cases k) auto
  let ?t = "s\<lparr>historyStep := int j,
              canvasRef := Some (putImageData (history s ! j) (clearRect c))\<rparr>"
  have u: "handleUndo s = ?t"
    using Suc.prems by (simp add: handleUndo_def Let_def at_index_Some)
  have "(handleUndo ^^ k') ?t =
          ?t\<lparr>historyStep := - 1,
             canvasRef := Some (clearRect (putImageData (history s ! j) (clearRect c)))\<rparr>"
    using Suc.prems k' by (intro Suc.IH) simp_all
  then show ?case
    unfolding k funpow_Suc_right o_apply u by simp
qed

lemma redo_top:
  "historyStep s = int (length (history s)) - 1 \<Longrightarrow> (handleRedo ^^ k) s = s"
  by (induction k) (simp_all add: handleRedo_def)

lemma redo_iter:
  assumes "canvasRef s = Some c" and "historyStep s = int (length (history s)) - 1 - int j"
    and "j \<le> length (history s)" and "0 < j" and "j \<le> k"
  shows "(handleRedo ^^ k) s =
           s\<lparr>historyStep := int (length (history s)) - 1,
             canvasRef := Some (putImageData (last (history s)) (clearRect c))\<rparr>"
  using assms
proof (induction j arbitrary: s c k)
  case 0
  then show ?case by simp
next
  case (Suc j)
  then obtain k' where k: "k = Suc k'" and k': "j \<le> k'" by (cases k) auto
  let ?n = "length (history s)"
  let ?i = "historyStep s + 1"
  let ?t = "s\<lparr>historyStep := ?i,
              canvasRef := Some (putImageData (history s ! nat ?i) (clearRect c))\<rparr>"
  have u: "handleRedo s = ?t"
    using Suc.prems by (simp add: handleRedo_def Let_def at_index_Some)
  show ?case
  proof (cases "j = 0")
    case True
    then have i: "?i = int ?n - 1" using Suc.prems by simp
    have ne: "history s \<noteq> []" using Suc.prems by auto
    have "history s ! nat ?i = last (history s)"
      using ne by (simp add: i last_conv_nth nat_diff_distrib')
    moreover have "(handleRedo ^^ k') ?t = ?t"
      by (rule redo_top) (simp add: i)
    ultimately show ?thesis
      unfolding k funpow_Suc_right o_apply u by (simp add: i)
  next
    case False
    have "(handleRedo ^^ k') ?t =
            ?t\<lparr>historyStep := int (length (history ?t)) - 1,
               canvasRef := Some (putImageData (last (history ?t))
                 (clearRect (putImageData (history s ! nat ?i) (clearRect c))))\<rparr>"
      using Suc.prems k' False by (intro Suc.IH) simp_all
    then show ?thesis
      unfolding k funpow_Suc_right o_apply u by simp
  qed
qed

lemma roundtrip:
  assumes canvas: "canvasRef s = Some c" and ne: "history s \<noteq> []"
    and top: "historyStep s = int (length (history s)) - 1"
    and snap: "getImageData c = Some (last (history s))"
    and k: "length (history s) \<le> k"
  shows "(handleRedo ^^ k) ((handleUndo ^^ k) s) = s"
proof -
  let ?n = "length (history s)"
  let ?u = "s\<lparr>historyStep := - 1, canvasRef := Some (clearRect c)\<rparr>"
  have n: "0 < ?n" using ne by simp
  have top': "historyStep s = int (?n - 1)" using top n by (cases "history s") simp_all
  have lt: "?n - 1 < ?n" "?n - 1 < k" using n k by arith+
  have "(handleUndo ^^ k) s = ?u"
    by (rule undo_iter[OF canvas top' lt])
  moreover have "(handleRedo ^^ k) ?u =
      ?u\<lparr>historyStep := int (length (history ?u)) - 1,
         canvasRef := Some (putImageData (last (history ?u)) (clearRect (clearRect c)))\<rparr>"
    using n k by (intro redo_iter[where j = ?n]) simp_all
  ultimately show ?thesis
    using canvas top putImageData_snapshot[OF snap] by simp
qed

lemma commit_post:
  fixes s :: App
  assumes "0 < cv_width c" and "0 < cv_height c"
  defines "t \<equiv> state_of (saveHistory (s\<lparr>canvasRef := Some c\<rparr>))"
  shows "canvasRef t = Some c \<and> history t \<noteq> [] \<and>
         historyStep t = int (length (history t)) - 1 \<and>
         getImageData c = Some (last (history t)) \<and>
         length (history t) \<le> length (history s) + 1"
proof -
  define kept where "kept = slice0 (history s) (historyStep s + 1)"
  define d where "d = \<lparr>img_width = cv_width c, img_height = cv_height c, img_data = bitmap c\<rparr>"
  have gd: "getImageData c = Some d"
    using assms(1,2) by (simp add: getImageData_Some d_def)
  have k: "length kept \<le> length (history s)"
    by (simp add: kept_def length_slice0)
  have sh: "saveHistory (s\<lparr>canvasRef := Some c\<rparr>) =
          Done (if length kept < 20
                then s\<lparr>canvasRef := Some c, history := kept @ [d], historyStep := int (length kept)\<rparr>
                else s\<lparr>canvasRef := Some c, history := tl (kept @ [d]),
                       historyStep := int (length kept) - 1\<rparr>)"
    using saveHistory_Some[of "s\<lparr>canvasRef := Some c\<rparr>" c d kept] gd
    by (simp add: kept_def)
  show ?thesis
  proof (cases "length kept < 20")
    case True
    then show ?thesis using k gd by (simp add: t_def sh)
  next
    case False
    then have "kept \<noteq> []" by auto
    with False show ?thesis using k gd by (simp add: t_def sh)
  qed
qed

lemma commits_snoc:
  "commits (cs @ [c]) s = state_of (saveHistory ((commits cs s)\<lparr>canvasRef := Some c\<rparr>))"
  by (simp add: commits_def)

lemma commits_length:
  "\<forall>c\<in>set cs. 0 < cv_width c \<and> 0 < cv_height c \<Longrightarrow>
   length (history (commits cs s)) \<le> length (history s) + length cs"
proof (induction cs rule: rev_induct)
  case Nil
  then show ?case by (simp add: commits_def)
next
  case (snoc c cs)
  then have "length (history (commits (cs @ [c]) s)) \<le> length (history (commits cs s)) + 1"
    using commit_post[of c "commits cs s"] by (simp add: commits_snoc)
  with snoc show ?case by simp
qed

lemma commits_all_kept:
  assumes "history s = []" and "historyStep s = - 1"
  shows "\<forall>c\<in>set cs. 0 < cv_width c \<and> 0 < cv_height c \<Longrightarrow> length cs \<le> 20 \<Longrightarrow>
         length (history (commits cs s)) = length cs \<and>
         historyStep (commits cs s) = int (length cs) - 1"
proof (induction cs rule: rev_induct)
  case Nil
  then show ?case using assms by (simp add: commits_def)
next
  case (snoc c cs)
  let ?t = "commits cs s"
  have ih: "length (history ?t) = length cs" "historyStep ?t = int (length cs) - 1"
    using snoc by simp_all
  have c: "0 < cv_width c" "0 < cv_height c" using snoc.prems by simp_all
  have k: "slice0 (history (?t\<lparr>canvasRef := Some c\<rparr>)) (historyStep (?t\<lparr>canvasRef := Some c\<rparr>) + 1)
             = history ?t"
    using ih by (simp add: slice0_nonneg)
  have "length (history ?t) < 20" using ih snoc.prems by simp
  then have "saveHistory (?t\<lparr>canvasRef := Some c\<rparr>) =
          Done (?t\<lparr>canvasRef := Some c,
                   history := history ?t @ [\<lparr>img_width = cv_width c, img_height = cv_height c,
                                              img_data = bitmap c\<rparr>],
                   historyStep := int (length (history ?t))\<rparr>)"
    using saveHistory_Some[OF _ getImageData_Some[OF c] k] by simp
  then show ?case
    by (simp add: commits_snoc ih)
qed

text \<open>
  C3. Start from an empty history with cursor \<open>-1\<close> and take \<open>N \<le> 20\<close> commits, each on
  a canvas of non-zero size. All \<open>N\<close> snapshots are kept, and \<open>N\<close> undo steps followed by
  \<open>N\<close> redo steps give back the state right after the last commit, overlay canvas
  included, with the cursor at the last index \<open>N - 1\<close>.
\<close>

theorem undo_redo_roundtrip:
  assumes empty: "history s = []" "historyStep s = - 1"
    and sized: "\<forall>c\<in>set cs. 0 < cv_width c \<and> 0 < cv_height c"
    and n: "length cs \<le> 20"
  shows "(handleRedo ^^ length cs) ((handleUndo ^^ length cs) (commits cs s)) = commits cs s \<and>
         historyStep (commits cs s) = int (length (history (commits cs s))) - 1 \<and>
         length (history (commits cs s)) = length cs"
proof (cases cs rule: rev_cases)
  case Nil
  then show ?thesis using empty by (simp add: commits_def)
next
  case (snoc cs' c)
  let ?t = "commits cs s"
  have c: "0 < cv_width c" "0 < cv_height c" using sized snoc by auto
  have post: "canvasRef ?t = Some c" "history ?t \<noteq> []"
    "historyStep ?t = int (length (history ?t)) - 1"
    "getImageData c = Some (last (history ?t))"
    using commit_post[OF c, of "commits cs' s"] by (simp_all add: snoc commits_snoc)
  have len: "length (history ?t) \<le> length cs"
    using commits_length[OF sized, of s] empty by simp
  show ?thesis
    using roundtrip[OF post len] post(3) commits_all_kept[OF empty sized n] by simp
qed

theorem undo_redo_roundtrip_witness:
  "history initial = [] \<and> historyStep initial = - 1 \<and>
   0 < cv_width overlay_a \<and> 0 < cv_height overlay_a \<and>
   0 < cv_width overlay_b \<and> 0 < cv_height overlay_b \<and>
   length [overlay_a, overlay_b] \<le> 20 \<and>
   (handleRedo ^^ length [overlay_a, overlay_b])
      ((handleUndo ^^ length [overlay_a, overlay_b]) (commits [overlay_a, overlay_b] initial)) =
     commits [overlay_a, overlay_b] initial \<and>
   historyStep (commits [overlay_a, overlay_b] initial) =
     int (length (history (commits [overlay_a, overlay_b] initial))) - 1 \<and>
   canvasRef (commits [overlay_a, overlay_b] initial) = Some overlay_b \<and>
   history (commits [overlay_a, overlay_b] initial) = [snap_a, snap_b]"
proof -
  have e: "history initial = []" "historyStep initial = - 1"
    by (simp_all add: initial_def)
  have s: "\<forall>c\<in>set [overlay_a, overlay_b]. 0 < cv_width c \<and> 0 < cv_height c"
    by (simp add: overlay_a_def overlay_b_def blank_canvas_def)
  have n: "length [overlay_a, overlay_b] \<le> 20" by simp
  have c: "canvasRef (commits [overlay_a, overlay_b] initial) = Some overlay_b \<and>
           history (commits [overlay_a, overlay_b] initial) = [snap_a, snap_b]"
    by (simp add: commits_def saveHistory_def getImageData_def slice0_def Let_def initial_def
        overlay_a_def overlay_b_def snap_a_def snap_b_def blank_canvas_def)
  show ?thesis
    using undo_redo_roundtrip[OF e s n] e s c by simp
qed

section \<open>Deleting a layer\<close>

text \<open>
  C7. Deleting the layer with id \<open>annotations-layer\<close> removes every layer of that id and
  keeps the others in order, empties the history, sets the cursor to \<open>-1\<close> and clears the
  overlay canvas when one is mounted. Deleting a layer of any other id leaves history,
  cursor and canvas as they were.
\<close>

theorem delete_annotation_layer:
  "layers (handleDeleteLayer ''annotations-layer'' s) =
     filter (\<lambda>l. layer_id l \<noteq> ''annotations-layer'') (layers s) \<and>
   ''annotations-layer'' \<notin> set (map layer_id (layers (handleDeleteLayer ''annotations-layer'' s))) \<and>
   history (handleDeleteLayer ''annotations-layer'' s) = [] \<and>
   historyStep (handleDeleteLayer ''annotations-layer'' s) = - 1 \<and>
   canvasRef (handleDeleteLayer ''annotations-layer'' s) = map_option clearRect (canvasRef s) \<and>
   map_option bitmap (canvasRef (handleDeleteLayer ''annotations-layer'' s)) =
     map_option (\<lambda>c. []) (canvasRef s) \<and>
   (i \<noteq> ''annotations-layer'' \<longrightarrow>
      history (handleDeleteLayer i s) = history s \<and>
      historyStep (handleDeleteLayer i s) = historyStep s \<and>
      canvasRef (handleDeleteLayer i s) = canvasRef s)"
  by (cases "canvasRef s") (auto simp: handleDeleteLayer_def Let_def clearRect_def)

theorem delete_annotation_layer_witness:
  "''1700000000000'' \<noteq> ''annotations-layer'' \<and>
   layers (handleDeleteLayer ''annotations-layer'' annotated) = [photo_layer] \<and>
   history (handleDeleteLayer ''annotations-layer'' annotated) = [] \<and>
   historyStep (handleDeleteLayer ''annotations-layer'' annotated) = - 1 \<and>
   canvasRef (handleDeleteLayer ''annotations-layer'' annotated) = Some (blank_canvas 300 150) \<and>
   history (handleDeleteLayer ''1700000000000'' annotated) = [snap_a, snap_b, snap_a] \<and>
   historyStep (handleDeleteLayer ''1700000000000'' annotated) = 0 \<and>
   canvasRef (handleDeleteLayer ''1700000000000'' annotated) = Some overlay_b"
proof -
  have a: "layers annotated = [annotation_layer, photo_layer]"
    "history annotated = [snap_a, snap_b, snap_a]" "historyStep annotated = 0"
    "canvasRef annotated = Some overlay_b"
    by (simp_all add: annotated_def branched_def)
  have l: "layer_id annotation_layer = ''annotations-layer''"
    "layer_id photo_layer = ''1700000000000''"
    by (simp_all add: annotation_layer_def photo_layer_def)
  have c: "clearRect overlay_b = blank_canvas 300 150"
    by (simp add: clearRect_def overlay_b_def blank_canvas_def)
  show ?thesis
    using delete_annotation_layer[of annotated "''1700000000000''"]
    by (simp add: a l c)
qed

section \<open>The history invariant\<close>

lemma history_inv_cong:
  "history t = history s \<Longrightarrow> historyStep t = historyStep s \<Longrightarrow> history_inv t = history_inv s"
  by (simp add: history_inv_def)

lemma saveHistory_inv:
  "history_inv s \<Longrightarrow> history_inv (state_of (saveHistory s))"
proof (cases "canvasRef s")
  case None
  assume "history_inv s"
  with None show ?thesis by (simp add: saveHistory_def)
next
  case (Some c)
  assume inv: "history_inv s"
  show ?thesis
  proof (cases "getImageData c")
    case None
    with Some inv show ?thesis by (simp add: saveHistory_def)
  next
    case d: (Some d)
    define kept where "kept = slice0 (history s) (historyStep s + 1)"
    have k: "length kept \<le> 20"
      using inv length_slice0[of "history s" "historyStep s + 1"]
      by (simp add: kept_def history_inv_def)
    have "kept \<noteq> []" if "\<not> length kept < 20" using that by auto
    then show ?thesis
      using k by (simp add: saveHistory_Some[OF Some d kept_def[symmetric]] history_inv_def)
  qed
qed

lemma handleUndo_inv: "history_inv s \<Longrightarrow> history_inv (handleUndo s)"
  by (auto simp: handleUndo_def history_inv_def Let_def split: option.splits)

lemma handleRedo_inv: "history_inv s \<Longrightarrow> history_inv (handleRedo s)"
  by (auto simp: handleRedo_def history_inv_def Let_def split: option.splits)

lemma handleDeleteLayer_inv: "history_inv s \<Longrightarrow> history_inv (handleDeleteLayer i s)"
  by (simp add: handleDeleteLayer_def history_inv_def Let_def)

lemma commitText_inv: "history_inv s \<Longrightarrow> history_inv (state_of (commitText s))"
proof -
  assume inv: "history_inv s"
  show ?thesis
  proof (cases "ti_visible (textInput s) \<and> trim (textValueRef s) \<noteq> [] \<and> canvasRef s \<noteq> None")
    case False
    with inv show ?thesis
      by (auto simp: commitText_def Let_def history_inv_def)
  next
    case True
    then obtain c where c: "canvasRef s = Some c" by auto
    define c2 where "c2 = fillText (textValueRef s) (ti_x (textInput s)) (ti_y (textInput s))
       (c\<lparr>ctx := (ctx c)
          \<lparr>fillStyle := brushColor s,
           globalCompositeOperation := ''source-over'',
           font := textFont (brushSize s),
           textBaseline := ''top''\<rparr>\<rparr>)"
    have "history_inv (s\<lparr>canvasRef := Some c2\<rparr>)"
      using inv by (simp add: history_inv_def)
    then have "history_inv (state_of (saveHistory (s\<lparr>canvasRef := Some c2\<rparr>)))"
      by (rule saveHistory_inv)
    then show ?thesis
      using True c
      by (cases "saveHistory (s\<lparr>canvasRef := Some c2\<rparr>)")
         (simp_all add: commitText_def Let_def c2_def history_inv_def)
  qed
qed

lemma ensureAnnotationLayer_history [simp]:
  "history (ensureAnnotationLayer s) = history s"
  "historyStep (ensureAnnotationLayer s) = historyStep s"
  "canvasRef (ensureAnnotationLayer s) = canvasRef s"
  by (simp_all add: ensureAnnotationLayer_def split: option.splits)

lemma startDrawing_inv_cases:
  "history_inv (state_of (startDrawing x y s)) = history_inv s \<or>
   history_inv (state_of (startDrawing x y s)) = history_inv (state_of (commitText s))"
proof (cases "commitText s")
  case (Done sc)
  then show ?thesis
    by (cases "canvasRef s"; cases "canvasRef sc")
       (simp_all add: startDrawing_def Let_def history_inv_def)
next
  case (Thrown t)
  then show ?thesis
    by (cases "canvasRef s") (simp_all add: startDrawing_def Let_def history_inv_def)
qed

lemma startDrawing_inv: "history_inv s \<Longrightarrow> history_inv (state_of (startDrawing x y s))"
  using startDrawing_inv_cases[of x y s] commitText_inv[of s] by auto

lemma draw_inv: "history_inv s \<Longrightarrow> history_inv (draw x y s)"
  by (auto simp: draw_def Let_def history_inv_def split: option.splits bool.splits prod.splits)

lemma stopDrawing_inv: "history_inv s \<Longrightarrow> history_inv (state_of (stopDrawing s))"
proof (cases "isDrawing s")
  case True
  assume "history_inv s"
  then have "history_inv (s\<lparr>isDrawing := False, snapshot := None,
             canvasRef :=
               map_option
                 (\<lambda>c. c\<lparr>ctx := (ctx c)\<lparr>globalCompositeOperation := ''source-over''\<rparr>\<rparr>)
                 (canvasRef s)\<rparr>)"
    by (simp add: history_inv_def)
  then show ?thesis using True by (simp add: stopDrawing_def saveHistory_inv)
next
  case False
  assume "history_inv s"
  with False show ?thesis by (simp add: stopDrawing_def)
qed

lemma step_inv: "history_inv s \<Longrightarrow> history_inv (step e s)"
  by (cases e)
     (simp_all add: startDrawing_inv draw_inv stopDrawing_inv commitText_inv saveHistory_inv
        handleUndo_inv handleRedo_inv handleDeleteLayer_inv, simp add: history_inv_def)

lemma run_inv: "history_inv s \<Longrightarrow> history_inv (run evs s)"
  unfolding run_def by (induction evs arbitrary: s) (simp_all add: step_inv)

lemma initial_inv: "history_inv initial"
  by (simp add: history_inv_def initial_def)

text \<open>
  C10. In every state reached from the initial state by any sequence of events (presses,
  moves, releases, text commits, direct commits, undo, redo, layer deletions and steps that
  do not assign the history), the cursor lies between \<open>-1\<close> and the last index and the
  history holds at most 20 snapshots; a cursor of at least 0 indexes an entry.
\<close>

theorem history_invariant:
  "history_inv (run evs initial) \<and>
   (0 \<le> historyStep (run evs initial) \<longrightarrow>
      at_index (history (run evs initial)) (historyStep (run evs initial)) \<noteq> None)"
  using run_inv[OF initial_inv, of evs] by (simp add: history_inv_def at_index_def)

theorem history_invariant_witness:
  "0 \<le> historyStep (run [Other (mount overlay_a), Save, Press 3 4, Undo, Redo] initial) \<and>
   history_inv (run [Other (mount overlay_a), Save, Press 3 4, Undo, Redo] initial) \<and>
   at_index (history (run [Other (mount overlay_a), Save, Press 3 4, Undo, Redo] initial))
     (historyStep (run [Other (mount overlay_a), Save, Press 3 4, Undo, Redo] initial)) = Some snap_a"
proof -
  have r: "run [Other (mount overlay_a), Save, Press 3 4, Undo, Redo] initial =
             initial\<lparr>history := [snap_a], historyStep := 0, canvasRef := Some overlay_a\<rparr>"
    by (simp add: run_def mount_def saveHistory_def getImageData_def slice0_def Let_def
        startDrawing_def handleUndo_def handleRedo_def at_index_def putImageData_def
        clearRect_def initial_def overlay_a_def snap_a_def blank_canvas_def)
  show ?thesis
    using history_invariant[of "[Other (mount overlay_a), Save, Press 3 4, Undo, Redo]"]
    unfolding r by (simp add: at_index_def)
qed

section \<open>Committing a text edit\<close>

text \<open>
  C6. With a text edit pending: if the buffer is empty or white space only, \<open>commitText\<close>
  only hides the input, so canvas, history and cursor stay as they are. If the buffer is
  not blank and the overlay canvas is mounted with non-zero size, it sets the text
  style, paints the buffer once at the anchor (one \<open>FillText\<close> appended to the bitmap) and
  commits one snapshot \<open>d\<close> of the painted canvas on top of the entries \<open>kept\<close> up to
  the cursor, with the eviction at 21; then it empties the buffer and hides the input.
\<close>

theorem commitText_cases:
  assumes pending: "ti_visible (textInput s)"
  shows "(trim (textValueRef s) = [] \<longrightarrow>
            commitText s = Done (s\<lparr>textInput := (textInput s)\<lparr>ti_visible := False\<rparr>\<rparr>)) \<and>
         (trim (textValueRef s) \<noteq> [] \<longrightarrow> canvasRef s = Some c \<longrightarrow>
            0 < cv_width c \<longrightarrow> 0 < cv_height c \<longrightarrow>
            (\<exists>c' d kept h'.
               c' = c\<lparr>ctx := (ctx c)
                        \<lparr>fillStyle := brushColor s,
                         globalCompositeOperation := ''source-over'',
                         font := textFont (brushSize s),
                         textBaseline := ''top''\<rparr>,
                      bitmap := bitmap c @
                        [FillText (textValueRef s) (ti_x (textInput s)) (ti_y (textInput s))
                           ((ctx c)
                            \<lparr>fillStyle := brushColor s,
                             globalCompositeOperation := ''source-over'',
                             font := textFont (brushSize s),
                             textBaseline := ''top''\<rparr>)]\<rparr> \<and>
               d = \<lparr>img_width = cv_width c, img_height = cv_height c, img_data = bitmap c'\<rparr> \<and>
               kept = slice0 (history s) (historyStep s + 1) \<and>
               h' = (if length kept < 20 then kept @ [d] else tl (kept @ [d])) \<and>
               commitText s =
                 Done (s\<lparr>canvasRef := Some c', history := h',
                          historyStep := int (length h') - 1, textValueRef := [],
                          textInput := (textInput s)\<lparr>ti_visible := False\<rparr>\<rparr>)))"
proof (intro conjI impI)
  assume "trim (textValueRef s) = []"
  with pending show "commitText s = Done (s\<lparr>textInput := (textInput s)\<lparr>ti_visible := False\<rparr>\<rparr>)"
    by (simp add: commitText_def)
next
  assume ne: "trim (textValueRef s) \<noteq> []" and canvas: "canvasRef s = Some c"
    and w: "0 < cv_width c" and h: "0 < cv_height c"
  define st where "st = (ctx c)
                            \<lparr>fillStyle := brushColor s,
                             globalCompositeOperation := ''source-over'',
                             font := textFont (brushSize s),
                             textBaseline := ''top''\<rparr>"
  define c' where "c' = c\<lparr>ctx := st, bitmap := bitmap c @
      [FillText (textValueRef s) (ti_x (textInput s)) (ti_y (textInput s)) st]\<rparr>"
  define d where "d = \<lparr>img_width = cv_width c, img_height = cv_height c, img_data = bitmap c'\<rparr>"
  define kept where "kept = slice0 (history s) (historyStep s + 1)"
  define h' where "h' = (if length kept < 20 then kept @ [d] else tl (kept @ [d]))"
  have f: "fillText (textValueRef s) (ti_x (textInput s)) (ti_y (textInput s)) (c\<lparr>ctx := st\<rparr>) = c'"
    by (simp add: fillText_def c'_def)
  have gd: "getImageData c' = Some d"
    using w h by (simp add: getImageData_def c'_def d_def)
  have sh: "saveHistory (s\<lparr>canvasRef := Some c'\<rparr>) =
              Done (s\<lparr>canvasRef := Some c', history := h', historyStep := int (length h') - 1\<rparr>)"
  proof (cases "length kept < 20")
    case True
    then show ?thesis
      using saveHistory_Some[of "s\<lparr>canvasRef := Some c'\<rparr>" c' d kept] gd
      by (simp add: kept_def h'_def)
  next
    case False
    then have "kept \<noteq> []" by auto
    with False show ?thesis
      using saveHistory_Some[of "s\<lparr>canvasRef := Some c'\<rparr>" c' d kept] gd
      by (simp add: kept_def h'_def)
  qed
  have "commitText s =
          Done (s\<lparr>canvasRef := Some c', history := h',
                   historyStep := int (length h') - 1, textValueRef := [],
                   textInput := (textInput s)\<lparr>ti_visible := False\<rparr>\<rparr>)"
    using pending ne canvas by (simp add: commitText_def Let_def st_def[symmetric] f sh)
  then show "\<exists>c' d kept h'.
               c' = c\<lparr>ctx := (ctx c)
                        \<lparr>fillStyle := brushColor s,
                         globalCompositeOperation := ''source-over'',
                         font := textFont (brushSize s),
                         textBaseline := ''top''\<rparr>,
                      bitmap := bitmap c @
                        [FillText (textValueRef s) (ti_x (textInput s)) (ti_y (textInput s))
                           ((ctx c)
                            \<lparr>fillStyle := brushColor s,
                             globalCompositeOperation := ''source-over'',
                             font := textFont (brushSize s),
                             textBaseline := ''top''\<rparr>)]\<rparr> \<and>
               d = \<lparr>img_width = cv_width c, img_height = cv_height c, img_data = bitmap c'\<rparr> \<and>
               kept = slice0 (history s) (historyStep s + 1) \<and>
               h' = (if length kept < 20 then kept @ [d] else tl (kept @ [d])) \<and>
               commitText s =
                 Done (s\<lparr>canvasRef := Some c', history := h',
                          historyStep := int (length h') - 1, textValueRef := [],
                          textInput := (textInput s)\<lparr>ti_visible := False\<rparr>\<rparr>)"
    unfolding c'_def st_def d_def kept_def h'_def by blast
qed

lemma trim_blank: "trim ''  '' = []"
  by (simp add: trim_def white_space_def Let_def)

lemma trim_hi: "trim ''hi'' = ''hi''"
  by (simp add: trim_def white_space_def Let_def)

lemma textFont_4: "textFont 4 = ''bold 24px Inter, sans-serif''"
  by (simp add: textFont_def number_string_def digit_def)

theorem commitText_cases_witness:
  "ti_visible (textInput (typing ''  '')) \<and> trim (textValueRef (typing ''  '')) = [] \<and>
   commitText (typing ''  '') =
     Done ((typing ''  '')\<lparr>textInput := \<lparr>ti_x = 10, ti_y = 20, ti_visible = False\<rparr>\<rparr>) \<and>
   ti_visible (textInput (typing ''hi'')) \<and> trim (textValueRef (typing ''hi'')) \<noteq> [] \<and>
   canvasRef (typing ''hi'') = Some (blank_canvas 300 150) \<and>
   0 < cv_width (blank_canvas 300 150) \<and> 0 < cv_height (blank_canvas 300 150) \<and>
   commitText (typing ''hi'') =
     Done ((typing ''hi'')
           \<lparr>canvasRef := Some lettered,
            history := [\<lparr>img_width = 300, img_height = 150, img_data = bitmap lettered\<rparr>],
            historyStep := 0, textValueRef := [],
            textInput := \<lparr>ti_x = 10, ti_y = 20, ti_visible = False\<rparr>\<rparr>)"
proof -
  have v: "ti_visible (textInput (typing ''  ''))" "ti_visible (textInput (typing ''hi''))"
    by (simp_all add: typing_def)
  have b: "trim (textValueRef (typing ''  '')) = []" "trim (textValueRef (typing ''hi'')) \<noteq> []"
    by (simp_all add: typing_def trim_blank trim_hi)
  have c: "canvasRef (typing ''hi'') = Some (blank_canvas 300 150)"
    "0 < cv_width (blank_canvas 300 150)" "0 < cv_height (blank_canvas 300 150)"
    by (simp_all add: typing_def blank_canvas_def)
  have t: "textInput (typing ''  '') = \<lparr>ti_x = 10, ti_y = 20, ti_visible = True\<rparr>"
    by (simp add: typing_def)
  have blank: "commitText (typing ''  '') =
     Done ((typing ''  '')\<lparr>textInput := \<lparr>ti_x = 10, ti_y = 20, ti_visible = False\<rparr>\<rparr>)"
    using commitText_cases[OF v(1), THEN conjunct1] b(1) by (simp add: t)
  have f: "textValueRef (typing ''hi'') = ''hi''" "brushColor (typing ''hi'') = ''#8b5cf6''"
    "brushSize (typing ''hi'') = 4" "history (typing ''hi'') = []"
    "historyStep (typing ''hi'') = - 1"
    "textInput (typing ''hi'') = \<lparr>ti_x = 10, ti_y = 20, ti_visible = True\<rparr>"
    by (simp_all add: typing_def initial_def)
  have "commitText (typing ''hi'') =
     Done ((typing ''hi'')
           \<lparr>canvasRef := Some lettered,
            history := [\<lparr>img_width = 300, img_height = 150, img_data = bitmap lettered\<rparr>],
            historyStep := 0, textValueRef := [],
            textInput := \<lparr>ti_x = 10, ti_y = 20, ti_visible = False\<rparr>\<rparr>)"
    using commitText_cases[OF v(2), of "blank_canvas 300 150", THEN conjunct2] b(2) c
    by (simp add: f textFont_4 slice0_def lettered_def text_ctx_def blank_canvas_def
        default_ctx_def)
  with blank v b c show ?thesis by blast
qed

section \<open>A press while a text edit is pending\<close>

lemma saveHistory_frame:
  assumes "saveHistory s = Done t"
  shows "annotationTool t = annotationTool s" "brushColor t = brushColor s"
    "brushSize t = brushSize s" "textInput t = textInput s" "canvasRef t = canvasRef s"
  using assms by (auto simp: saveHistory_def Let_def split: option.splits if_splits)

lemma commitText_frame:
  assumes "commitText s = Done s1" and "ti_visible (textInput s)"
  shows "annotationTool s1 = annotationTool s \<and> brushColor s1 = brushColor s \<and>
         brushSize s1 = brushSize s \<and> \<not> ti_visible (textInput s1)"
proof (cases "trim (textValueRef s) = []")
  case True
  with assms show ?thesis by (auto simp: commitText_def)
next
  case False
  show ?thesis
  proof (cases "canvasRef s")
    case None
    with assms False show ?thesis by (auto simp: commitText_def Let_def)
  next
    case (Some c)
    define s' where "s' = s\<lparr>canvasRef := Some
      (fillText (textValueRef s) (ti_x (textInput s)) (ti_y (textInput s))
        (c\<lparr>ctx := (ctx c)
           \<lparr>fillStyle := brushColor s, globalCompositeOperation := ''source-over'',
            font := textFont (brushSize s), textBaseline := ''top''\<rparr>\<rparr>))\<rparr>"
    from assms False Some obtain t where t: "saveHistory s' = Done t"
      and s1: "s1 = t\<lparr>textValueRef := [], textInput := (textInput t)\<lparr>ti_visible := False\<rparr>\<rparr>"
      by (cases "saveHistory s'") (auto simp: commitText_def Let_def s'_def)
    show ?thesis using saveHistory_frame[OF t] by (simp add: s1 s'_def)
  qed
qed

text \<open>
  C4, as the code has it. While a text edit is pending, a press with the text tool is
  exactly \<open>commitText\<close>: the pending buffer is committed, the edit is closed and no new one
  is opened. A press with any other drawing tool first commits the pending text and then
  proceeds as a press on the committed state, in which no edit is pending. A press with
  the text tool while no edit is pending (and the canvas mounted) opens an edit with an
  empty buffer anchored at the press point.
\<close>

theorem startDrawing_text_edit:
  "(ti_visible (textInput s) \<longrightarrow> annotationTool s = Text \<longrightarrow>
      startDrawing x y s = commitText s) \<and>
   (ti_visible (textInput s) \<longrightarrow> annotationTool s \<noteq> Text \<longrightarrow> annotationTool s \<noteq> Cursor \<longrightarrow>
      commitText s = Done s1 \<longrightarrow> startDrawing x y s = startDrawing x y s1) \<and>
   (ti_visible (textInput s) \<longrightarrow> commitText s = Done s1 \<longrightarrow> \<not> ti_visible (textInput s1)) \<and>
   (\<not> ti_visible (textInput s) \<longrightarrow> annotationTool s = Text \<longrightarrow> canvasRef s = Some c \<longrightarrow>
      startDrawing x y s =
        Done ((ensureAnnotationLayer s)
              \<lparr>isDrawing := False, startPos := Some (x - rect_left c, y - rect_top c),
               textValueRef := [],
               textInput := \<lparr>ti_x = x - rect_left c, ti_y = y - rect_top c,
                              ti_visible = True\<rparr>\<rparr>))"
proof (intro conjI impI)
  assume "ti_visible (textInput s)" and "annotationTool s = Text"
  then show "startDrawing x y s = commitText s"
    by (cases "commitText s") (simp_all add: startDrawing_def)
next
  assume p: "ti_visible (textInput s)" and t: "annotationTool s \<noteq> Text"
    "annotationTool s \<noteq> Cursor" and c: "commitText s = Done s1"
  note f = commitText_frame[OF c p]
  show "startDrawing x y s = startDrawing x y s1"
    using p t c f by (simp add: startDrawing_def Let_def split: option.splits)
next
  assume "ti_visible (textInput s)" and "commitText s = Done s1"
  then show "\<not> ti_visible (textInput s1)"
    using commitText_frame by blast
next
  assume "\<not> ti_visible (textInput s)" and "annotationTool s = Text" and "canvasRef s = Some c"
  then show "startDrawing x y s =
        Done ((ensureAnnotationLayer s)
              \<lparr>isDrawing := False, startPos := Some (x - rect_left c, y - rect_top c),
               textValueRef := [],
               textInput := \<lparr>ti_x = x - rect_left c, ti_y = y - rect_top c,
                              ti_visible = True\<rparr>\<rparr>)"
    by (simp add: startDrawing_def Let_def)
qed

lemma commitText_brushing:
  "commitText brushing =
     Done (brushing
           \<lparr>canvasRef := Some lettered, history := [snap_lettered], historyStep := 0,
            textValueRef := [], textInput := \<lparr>ti_x = 10, ti_y = 20, ti_visible = False\<rparr>\<rparr>)"
  by (simp add: commitText_def brushing_def typing_def initial_def trim_hi Let_def
      fillText_def saveHistory_def getImageData_def slice0_def textFont_4 lettered_def
      snap_lettered_def text_ctx_def blank_canvas_def default_ctx_def)

theorem startDrawing_text_edit_witness:
  "ti_visible (textInput (typing ''hi'')) \<and> annotationTool (typing ''hi'') = Text \<and>
   startDrawing 50 60 (typing ''hi'') = commitText (typing ''hi'') \<and>
   ti_visible (textInput brushing) \<and> annotationTool brushing \<noteq> Text \<and>
   annotationTool brushing \<noteq> Cursor \<and>
   commitText brushing =
     Done (brushing
           \<lparr>canvasRef := Some lettered, history := [snap_lettered], historyStep := 0,
            textValueRef := [], textInput := \<lparr>ti_x = 10, ti_y = 20, ti_visible = False\<rparr>\<rparr>) \<and>
   startDrawing 50 60 brushing =
     startDrawing 50 60
       (brushing
        \<lparr>canvasRef := Some lettered, history := [snap_lettered], historyStep := 0,
         textValueRef := [], textInput := \<lparr>ti_x = 10, ti_y = 20, ti_visible = False\<rparr>\<rparr>) \<and>
   \<not> ti_visible (textInput idle) \<and> annotationTool idle = Text \<and>
   canvasRef idle = Some (blank_canvas 300 150) \<and>
   startDrawing 50 60 idle =
     Done (idle\<lparr>startPos := Some (50, 60),
                textInput := \<lparr>ti_x = 50, ti_y = 60, ti_visible = True\<rparr>\<rparr>)"
proof -
  have a: "ti_visible (textInput (typing ''hi''))" "annotationTool (typing ''hi'') = Text"
    by (simp_all add: typing_def)
  have b: "ti_visible (textInput brushing)" "annotationTool brushing \<noteq> Text"
    "annotationTool brushing \<noteq> Cursor"
    by (simp_all add: brushing_def typing_def)
  have d: "\<not> ti_visible (textInput idle)" "annotationTool idle = Text"
    "canvasRef idle = Some (blank_canvas 300 150)"
    by (simp_all add: idle_def typing_def)
  have e: "ensureAnnotationLayer idle = idle"
    by (simp add: ensureAnnotationLayer_def idle_def typing_def find_first_def
        annotation_layer_def)
  have i: "isDrawing idle = False" "textValueRef idle = []"
    by (simp_all add: idle_def typing_def initial_def)
  have r: "rect_left (blank_canvas 300 150) = 0" "rect_top (blank_canvas 300 150) = 0"
    by (simp_all add: blank_canvas_def)
  note t = startDrawing_text_edit[of "typing ''hi''" 50 60]
  note u = startDrawing_text_edit[of brushing 50 60 _ "blank_canvas 300 150"]
  note v = startDrawing_text_edit[of idle 50 60 _ "blank_canvas 300 150"]
  have 1: "startDrawing 50 60 (typing ''hi'') = commitText (typing ''hi'')"
    using t a by blast
  have 2: "startDrawing 50 60 brushing =
     startDrawing 50 60
       (brushing
        \<lparr>canvasRef := Some lettered, history := [snap_lettered], historyStep := 0,
         textValueRef := [], textInput := \<lparr>ti_x = 10, ti_y = 20, ti_visible = False\<rparr>\<rparr>)"
    using u b commitText_brushing by blast
  have "startDrawing 50 60 idle =
        Done ((ensureAnnotationLayer idle)
              \<lparr>isDrawing := False,
               startPos := Some (50 - rect_left (blank_canvas 300 150),
                                 60 - rect_top (blank_canvas 300 150)),
               textValueRef := [],
               textInput := \<lparr>ti_x = 50 - rect_left (blank_canvas 300 150),
                              ti_y = 60 - rect_top (blank_canvas 300 150),
                              ti_visible = True\<rparr>\<rparr>)"
    using v d by blast
  then have 3: "startDrawing 50 60 idle =
     Done (idle\<lparr>startPos := Some (50, 60),
                textInput := \<lparr>ti_x = 50, ti_y = 60, ti_visible = True\<rparr>\<rparr>)"
    unfolding e r by (simp add: idle_def typing_def initial_def)
  show ?thesis using a b d 1 2 3 commitText_brushing by blast
qed

text \<open>
  The claim as worded fails. At \<open>typing ''hi''\<close> (text tool, edit pending at \<open>(10, 20)\<close>) a
  press at \<open>(50, 60)\<close> paints the pending text, commits a snapshot and leaves no edit
  open.
\<close>

lemma commitText_typing:
  "commitText (typing ''hi'') =
     Done ((typing ''hi'')
           \<lparr>canvasRef := Some lettered, history := [snap_lettered], historyStep := 0,
            textValueRef := [], textInput := \<lparr>ti_x = 10, ti_y = 20, ti_visible = False\<rparr>\<rparr>)"
  by (simp add: commitText_def typing_def initial_def trim_hi Let_def
      fillText_def saveHistory_def getImageData_def slice0_def textFont_4 lettered_def
      snap_lettered_def text_ctx_def blank_canvas_def default_ctx_def)

theorem startDrawing_text_edit_counterexample:
  "startDrawing 50 60 (typing ''hi'') =
     Done ((typing ''hi'')
           \<lparr>canvasRef := Some lettered, history := [snap_lettered], historyStep := 0,
            textValueRef := [], textInput := \<lparr>ti_x = 10, ti_y = 20, ti_visible = False\<rparr>\<rparr>) \<and>
   \<not> fresh_edit_discarding 50 60 (typing ''hi'') (state_of (startDrawing 50 60 (typing ''hi'')))"
proof -
  have "startDrawing 50 60 (typing ''hi'') = commitText (typing ''hi'')"
    by (cases "commitText (typing ''hi'')") (simp_all add: startDrawing_def typing_def)
  then show ?thesis
    by (simp add: commitText_typing fresh_edit_discarding_def)
qed

section \<open>The base layer of an export\<close>

lemma find_first_Some: "find_first P xs = Some x \<longleftrightarrow> first_such P xs x"
proof (induction xs)
  case Nil
  then show ?case by (simp add: find_first_def first_such_def)
next
  case (Cons a xs)
  show ?case
  proof (cases "P a")
    case True
    have "first_such P (a # xs) x \<longleftrightarrow> x = a"
    proof
      assume "first_such P (a # xs) x"
      then obtain pre post where p: "a # xs = pre @ x # post" "P x" "\<forall>y\<in>set pre. \<not> P y"
        by (auto simp: first_such_def)
      with True show "x = a" by (cases pre) auto
    next
      assume "x = a"
      with True show "first_such P (a # xs) x"
        unfolding first_such_def by (intro exI[of _ "[]"] exI[of _ xs]) simp
    qed
    with True show ?thesis by (auto simp: find_first_def)
  next
    case False
    have "first_such P (a # xs) x \<longleftrightarrow> first_such P xs x"
    proof
      assume "first_such P (a # xs) x"
      then obtain pre post where p: "a # xs = pre @ x # post" "P x" "\<forall>y\<in>set pre. \<not> P y"
        by (auto simp: first_such_def)
      with False obtain pre' where "pre = a # pre'" by (cases pre) auto
      with p show "first_such P xs x" by (auto simp: first_such_def)
    next
      assume "first_such P xs x"
      then obtain pre post where p: "xs = pre @ x # post" "P x" "\<forall>y\<in>set pre. \<not> P y"
        by (auto simp: first_such_def)
      with False show "first_such P (a # xs) x"
        unfolding first_such_def by (intro exI[of _ "a # pre"] exI[of _ post]) simp
    qed
    with False Cons show ?thesis by (simp add: find_first_def)
  qed
qed

lemma find_first_None: "find_first P xs = None \<longleftrightarrow> (\<forall>x\<in>set xs. \<not> P x)"
  by (auto simp: find_first_def find_None_iff)

lemma handleExport_base:
  "exportLayer s = Some l \<Longrightarrow> \<exists>out. snd (handleExport s) = Some out \<and> base_of out = l"
  by (auto simp: handleExport_def Let_def split: option.splits bool.splits)

text \<open>
  How \<open>handleExport\<close> chooses. The base layer is the first layer whose id is the active id
  and is not \<open>annotations-layer\<close>; when there is none, the fallback takes the first visible
  layer whose type is not \<open>segment\<close>; when there is none either, the export raises the
  error notification and produces no output.
\<close>

lemma exportLayer_choice:
  "(first_such (\<lambda>l. Some (layer_id l) = activeLayerId s \<and> layer_id l \<noteq> ''annotations-layer'')
      (layers s) l \<longrightarrow>
      exportLayer s = Some l \<and> (\<exists>out. snd (handleExport s) = Some out \<and> base_of out = l)) \<and>
   ((\<forall>a\<in>set (layers s).
        \<not> (Some (layer_id a) = activeLayerId s \<and> layer_id a \<noteq> ''annotations-layer'')) \<longrightarrow>
    first_such (\<lambda>l. layer_type l \<noteq> Segment \<and> visible l) (layers s) l \<longrightarrow>
      exportLayer s = Some l \<and> (\<exists>out. snd (handleExport s) = Some out \<and> base_of out = l)) \<and>
   ((\<forall>a\<in>set (layers s).
        \<not> (Some (layer_id a) = activeLayerId s \<and> layer_id a \<noteq> ''annotations-layer'') \<and>
        \<not> (layer_type a \<noteq> Segment \<and> visible a)) \<longrightarrow>
      handleExport s = (addToast ''No valid image layer to export'' ''error'' s, None))"
proof (intro conjI impI)
  assume "first_such (\<lambda>l. Some (layer_id l) = activeLayerId s \<and> layer_id l \<noteq> ''annotations-layer'')
      (layers s) l"
  then have "exportLayer s = Some l"
    by (simp add: exportLayer_def find_first_Some[symmetric])
  then show "exportLayer s = Some l" "\<exists>out. snd (handleExport s) = Some out \<and> base_of out = l"
    by (simp_all add: handleExport_base)
next
  assume n: "\<forall>a\<in>set (layers s).
        \<not> (Some (layer_id a) = activeLayerId s \<and> layer_id a \<noteq> ''annotations-layer'')"
    and f: "first_such (\<lambda>l. layer_type l \<noteq> Segment \<and> visible l) (layers s) l"
  from n have "find_first (\<lambda>l. Some (layer_id l) = activeLayerId s \<and>
      layer_id l \<noteq> ''annotations-layer'') (layers s) = None"
    by (simp only: find_first_None) 
  with f have "exportLayer s = Some l"
    by (simp add: exportLayer_def find_first_Some[symmetric])
  then show "exportLayer s = Some l" "\<exists>out. snd (handleExport s) = Some out \<and> base_of out = l"
    by (simp_all add: handleExport_base)
next
  assume n: "\<forall>a\<in>set (layers s).
        \<not> (Some (layer_id a) = activeLayerId s \<and> layer_id a \<noteq> ''annotations-layer'') \<and>
        \<not> (layer_type a \<noteq> Segment \<and> visible a)"
  then have "find_first (\<lambda>l. Some (layer_id l) = activeLayerId s \<and>
      layer_id l \<noteq> ''annotations-layer'') (layers s) = None"
    "find_first (\<lambda>l. layer_type l \<noteq> Segment \<and> visible l) (layers s) = None"
    unfolding find_first_None by blast+
  then show "handleExport s = (addToast ''No valid image layer to export'' ''error'' s, None)"
    by (simp add: handleExport_def exportLayer_def)
qed

lemma exportLayer_choice_examples:
  "first_such (\<lambda>l. Some (layer_id l) = activeLayerId photo_active \<and>
                    layer_id l \<noteq> ''annotations-layer'') (layers photo_active) photo_layer \<and>
   exportLayer photo_active = Some photo_layer \<and>
   snd (handleExport photo_active) = Some (Annotated photo_layer overlay_b) \<and>
   list_all (\<lambda>a. \<not> (Some (layer_id a) = activeLayerId photo_below \<and>
                       layer_id a \<noteq> ''annotations-layer'')) (layers photo_below) \<and>
   first_such (\<lambda>l. layer_type l \<noteq> Segment \<and> visible l) (layers photo_below) photo_layer \<and>
   exportLayer photo_below = Some photo_layer \<and>
   snd (handleExport photo_below) = Some (Plain photo_layer) \<and>
   list_all (\<lambda>a. \<not> (Some (layer_id a) = activeLayerId cutout_shown \<and>
                       layer_id a \<noteq> ''annotations-layer'') \<and>
                  \<not> (layer_type a \<noteq> Segment \<and> visible a)) (layers cutout_shown) \<and>
   handleExport cutout_shown =
     (addToast ''No valid image layer to export'' ''error'' cutout_shown, None)"
proof -
  have la: "layers photo_active = [annotation_layer] @ photo_layer # []"
    "activeLayerId photo_active = Some ''1700000000000''"
    by (simp_all add: photo_active_def annotated_def)
  have lb: "layers photo_below = [annotation_layer, cutout_layer] @ photo_layer # []"
    "activeLayerId photo_below = Some ''annotations-layer''"
    by (simp_all add: photo_below_def cutout_shown_def)
  have lc: "layers cutout_shown = [annotation_layer, cutout_layer]"
    "activeLayerId cutout_shown = Some ''annotations-layer''"
    by (simp_all add: cutout_shown_def)
  have f1: "first_such (\<lambda>l. Some (layer_id l) = activeLayerId photo_active \<and>
                    layer_id l \<noteq> ''annotations-layer'') (layers photo_active) photo_layer"
    unfolding first_such_def la
    by (intro exI[of _ "[annotation_layer]"] exI[of _ "[]"])
       (simp add: annotation_layer_def photo_layer_def)
  have n2: "list_all (\<lambda>a. \<not> (Some (layer_id a) = activeLayerId photo_below \<and>
                       layer_id a \<noteq> ''annotations-layer'')) (layers photo_below)"
    unfolding lb by (simp add: annotation_layer_def photo_layer_def cutout_layer_def)
  have f2: "first_such (\<lambda>l. layer_type l \<noteq> Segment \<and> visible l) (layers photo_below) photo_layer"
    unfolding first_such_def lb
    by (intro exI[of _ "[annotation_layer, cutout_layer]"] exI[of _ "[]"])
       (simp add: annotation_layer_def photo_layer_def cutout_layer_def)
  have n3: "list_all (\<lambda>a. \<not> (Some (layer_id a) = activeLayerId cutout_shown \<and>
                       layer_id a \<noteq> ''annotations-layer'') \<and>
                  \<not> (layer_type a \<noteq> Segment \<and> visible a)) (layers cutout_shown)"
    unfolding lc by (simp add: annotation_layer_def cutout_layer_def)
  have e1: "exportLayer photo_active = Some photo_layer"
    using exportLayer_choice[of photo_active photo_layer] f1 by blast
  have e2: "exportLayer photo_below = Some photo_layer"
    using exportLayer_choice[of photo_below photo_layer] n2 f2
    unfolding list_all_iff by blast
  have e3: "handleExport cutout_shown =
     (addToast ''No valid image layer to export'' ''error'' cutout_shown, None)"
    using exportLayer_choice[of cutout_shown] n3 unfolding list_all_iff by blast
  have fa: "historyStep photo_active = 0" "canvasRef photo_active = Some overlay_b"
    by (simp_all add: photo_active_def annotated_def branched_def)
  have fb: "historyStep photo_below = - 1"
    by (simp add: photo_below_def cutout_shown_def initial_def)
  have h1: "snd (handleExport photo_active) = Some (Annotated photo_layer overlay_b)"
    by (simp add: handleExport_def e1 Let_def find_first_def la fa annotation_layer_def)
  have h2: "snd (handleExport photo_below) = Some (Plain photo_layer)"
    by (simp add: handleExport_def e2 Let_def find_first_def lb fb annotation_layer_def)
  show ?thesis using f1 e1 h1 n2 f2 e2 h2 n3 e3 by blast
qed

text \<open>
  C5. The fallback of the export filters on the layer type, where the overlay is known by
  its id: \<open>segment\<close> is the type of the annotation layer and also of every segmentation
  result. At \<open>cutout_shown\<close> the annotation layer is active and the only other layer is a
  visible segmentation result. It is the first visible layer that is not the overlay and
  it is the layer on display, yet the export reports that there is no valid layer. At
  \<open>photo_below\<close> the export takes the photo, not the segmentation result on display; with
  the segmentation result active, the same expression exports it.
\<close>

theorem export_skips_segmentation_result:
  "spec_base_layer cutout_shown = Some cutout_layer \<and>
   displayLayer cutout_shown = Some cutout_layer \<and>
   exportLayer cutout_shown = None \<and>
   handleExport cutout_shown =
     (addToast ''No valid image layer to export'' ''error'' cutout_shown, None) \<and>
   displayLayer photo_below = Some cutout_layer \<and>
   exportLayer photo_below = Some photo_layer \<and>
   exportLayer (cutout_shown\<lparr>activeLayerId := Some ''1700000000500''\<rparr>) = Some cutout_layer"
  by (simp add: spec_base_layer_def displayLayer_def exportLayer_def handleExport_def
      find_first_def Let_def photo_below_def cutout_shown_def initial_def annotation_layer_def
      cutout_layer_def photo_layer_def)

section \<open>The arrow\<close>

lemma cos_arctan_div:
  assumes "0 < x" shows "cos (arctan (y / x)) = x / sqrt (x\<^sup>2 + y\<^sup>2)"
proof -
  have "1 + (y / x)\<^sup>2 = (x\<^sup>2 + y\<^sup>2) / x\<^sup>2"
    using assms by (simp add: field_simps power2_eq_square)
  then have "sqrt (1 + (y / x)\<^sup>2) = sqrt (x\<^sup>2 + y\<^sup>2) / x"
    using assms by (simp add: real_sqrt_divide)
  then show ?thesis by (simp add: cos_arctan)
qed

lemma sin_arctan_div:
  assumes "0 < x" shows "sin (arctan (y / x)) = y / sqrt (x\<^sup>2 + y\<^sup>2)"
proof -
  have "1 + (y / x)\<^sup>2 = (x\<^sup>2 + y\<^sup>2) / x\<^sup>2"
    using assms by (simp add: field_simps power2_eq_square)
  then have "sqrt (1 + (y / x)\<^sup>2) = sqrt (x\<^sup>2 + y\<^sup>2) / x"
    using assms by (simp add: real_sqrt_divide)
  then show ?thesis using assms by (simp add: sin_arctan)
qed

lemma cos_arctan_div_neg:
  assumes "x < 0" shows "cos (arctan (y / x)) = - x / sqrt (x\<^sup>2 + y\<^sup>2)"
  using cos_arctan_div[of "- x" "- y"] assms by simp

lemma sin_arctan_div_neg:
  assumes "x < 0" shows "sin (arctan (y / x)) = - y / sqrt (x\<^sup>2 + y\<^sup>2)"
  using sin_arctan_div[of "- x" "- y"] assms by simp

lemma cos_atan2: "cos (atan2 y x) * sqrt (x\<^sup>2 + y\<^sup>2) = x"
proof -
  consider "0 < x" | "x < 0" | "x = 0" by linarith
  then show ?thesis
  proof cases
    case 1
    then have "0 < sqrt (x\<^sup>2 + y\<^sup>2)" by (simp add: sum_power2_gt_zero_iff)
    with 1 show ?thesis by (simp add: atan2_def cos_arctan_div)
  next
    case 2
    then have "0 < sqrt (x\<^sup>2 + y\<^sup>2)" by (simp add: sum_power2_gt_zero_iff)
    with 2 show ?thesis by (simp add: atan2_def cos_arctan_div_neg)
  next
    case 3
    then show ?thesis by (simp add: atan2_def)
  qed
qed

lemma sin_atan2: "sin (atan2 y x) * sqrt (x\<^sup>2 + y\<^sup>2) = y"
proof -
  consider "0 < x" | "x < 0" | "x = 0" by linarith
  then show ?thesis
  proof cases
    case 1
    then have "0 < sqrt (x\<^sup>2 + y\<^sup>2)" by (simp add: sum_power2_gt_zero_iff)
    with 1 show ?thesis by (simp add: atan2_def sin_arctan_div)
  next
    case 2
    then have "0 < sqrt (x\<^sup>2 + y\<^sup>2)" by (simp add: sum_power2_gt_zero_iff)
    with 2 show ?thesis by (simp add: atan2_def sin_arctan_div_neg)
  next
    case 3
    then show ?thesis by (simp add: atan2_def)
  qed
qed


lemma back_vertex:
  fixes h tx ty dx dy off :: real
  defines "th \<equiv> atan2 dy dx" and "len \<equiv> sqrt (dx\<^sup>2 + dy\<^sup>2)"
  defines "vx \<equiv> tx - h * cos (th + off)" and "vy \<equiv> ty - h * sin (th + off)"
  shows "(vx - tx)\<^sup>2 + (vy - ty)\<^sup>2 = h\<^sup>2"
    and "(vx - tx) * (- dx) + (vy - ty) * (- dy) = h * len * cos off"
    and "(- dx) * (vy - ty) - (- dy) * (vx - tx) = h * len * sin off"
proof -
  have c: "dx = cos th * len" and s: "dy = sin th * len"
    by (simp_all add: th_def len_def cos_atan2 sin_atan2)
  have "(vx - tx)\<^sup>2 + (vy - ty)\<^sup>2 = (h * cos (th + off))\<^sup>2 + (h * sin (th + off))\<^sup>2"
    by (simp add: vx_def vy_def)
  also have "\<dots> = h\<^sup>2 * ((cos (th + off))\<^sup>2 + (sin (th + off))\<^sup>2)"
    by (simp only: power_mult_distrib distrib_left)
  also have "\<dots> = h\<^sup>2" by simp
  finally show "(vx - tx)\<^sup>2 + (vy - ty)\<^sup>2 = h\<^sup>2" .
  have "(vx - tx) * (- dx) + (vy - ty) * (- dy) =
          h * len * (cos (th + off) * cos th + sin (th + off) * sin th)"
    by (subst c, subst s) (simp add: vx_def vy_def algebra_simps)
  also have "cos (th + off) * cos th + sin (th + off) * sin th = cos ((th + off) - th)"
    by (simp only: cos_diff)
  finally show "(vx - tx) * (- dx) + (vy - ty) * (- dy) = h * len * cos off" by simp
  have "(- dx) * (vy - ty) - (- dy) * (vx - tx) =
          h * len * (sin (th + off) * cos th - cos (th + off) * sin th)"
    by (subst c, subst s) (simp add: vx_def vy_def algebra_simps)
  also have "sin (th + off) * cos th - cos (th + off) * sin th = sin ((th + off) - th)"
    by (simp only: sin_diff)
  finally show "(- dx) * (vy - ty) - (- dy) * (vx - tx) = h * len * sin off" by simp
qed


lemma drawArrow_unfold:
  "drawArrow brush c fromX fromY toX toY =
     c\<lparr>ctx := (ctx c)\<lparr>fillStyle := strokeStyle (ctx c)\<rparr>,
       path := [MoveTo toX toY,
                LineTo (toX - headLength brush * cos (atan2 (toY - fromY) (toX - fromX) + - (pi / 6)))
                       (toY - headLength brush * sin (atan2 (toY - fromY) (toX - fromX) + - (pi / 6))),
                LineTo (toX - headLength brush * cos (atan2 (toY - fromY) (toX - fromX) + pi / 6))
                       (toY - headLength brush * sin (atan2 (toY - fromY) (toX - fromX) + pi / 6)),
                LineTo toX toY],
       bitmap := bitmap c @
         [Stroke [MoveTo fromX fromY, LineTo toX toY] (ctx c),
          Fill [MoveTo toX toY,
                LineTo (toX - headLength brush * cos (atan2 (toY - fromY) (toX - fromX) + - (pi / 6)))
                       (toY - headLength brush * sin (atan2 (toY - fromY) (toX - fromX) + - (pi / 6))),
                LineTo (toX - headLength brush * cos (atan2 (toY - fromY) (toX - fromX) + pi / 6))
                       (toY - headLength brush * sin (atan2 (toY - fromY) (toX - fromX) + pi / 6)),
                LineTo toX toY]
               ((ctx c)\<lparr>fillStyle := strokeStyle (ctx c)\<rparr>)]\<rparr>"
  by (simp add: drawArrow_def Let_def beginPath_def moveTo_def lineTo_def stroke_def fill_def)

text \<open>
  C8, over the reals. For a brush size of at least 0, \<open>drawArrow\<close> strokes the segment from
  the origin to the endpoint and then fills the triangle with corners at the endpoint and
  at two back vertices \<open>(ax, ay)\<close> and \<open>(bx, by)\<close>. Both back vertices lie at distance
  \<open>15 + brush\<close> from the endpoint. Seen from the endpoint, each makes the angle \<open>pi / 6\<close>
  (30 degrees) with the direction back to the origin: the inner product with the shaft
  vector is \<open>h * len * cos (pi / 6)\<close>, and the two lie on opposite sides of the shaft, the
  cross products being \<open>- h * len * sin (pi / 6)\<close> and \<open>h * len * sin (pi / 6)\<close>, where \<open>h\<close>
  is the head length and \<open>len\<close> the length of the shaft.
\<close>

theorem drawArrow_geometry:
  assumes brush: "0 \<le> brush"
  shows "\<exists>ax ay bx by.
           drawArrow brush c fromX fromY toX toY =
             c\<lparr>ctx := (ctx c)\<lparr>fillStyle := strokeStyle (ctx c)\<rparr>,
               path := [MoveTo toX toY, LineTo ax ay, LineTo bx by, LineTo toX toY],
               bitmap := bitmap c @
                 [Stroke [MoveTo fromX fromY, LineTo toX toY] (ctx c),
                  Fill [MoveTo toX toY, LineTo ax ay, LineTo bx by, LineTo toX toY]
                    ((ctx c)\<lparr>fillStyle := strokeStyle (ctx c)\<rparr>)]\<rparr> \<and>
           headLength brush = 15 + real_of_int brush \<and>
           sqrt ((ax - toX)\<^sup>2 + (ay - toY)\<^sup>2) = headLength brush \<and>
           sqrt ((bx - toX)\<^sup>2 + (by - toY)\<^sup>2) = headLength brush \<and>
           (ax - toX) * (fromX - toX) + (ay - toY) * (fromY - toY) =
             headLength brush * sqrt ((toX - fromX)\<^sup>2 + (toY - fromY)\<^sup>2) * cos (pi / 6) \<and>
           (bx - toX) * (fromX - toX) + (by - toY) * (fromY - toY) =
             headLength brush * sqrt ((toX - fromX)\<^sup>2 + (toY - fromY)\<^sup>2) * cos (pi / 6) \<and>
           (fromX - toX) * (ay - toY) - (fromY - toY) * (ax - toX) =
             - (headLength brush * sqrt ((toX - fromX)\<^sup>2 + (toY - fromY)\<^sup>2) * sin (pi / 6)) \<and>
           (fromX - toX) * (by - toY) - (fromY - toY) * (bx - toX) =
             headLength brush * sqrt ((toX - fromX)\<^sup>2 + (toY - fromY)\<^sup>2) * sin (pi / 6)"
proof -
  define h where "h = headLength brush"
  define dx where "dx = toX - fromX"
  define dy where "dy = toY - fromY"
  define ax where "ax = toX - h * cos (atan2 dy dx + - (pi / 6))"
  define ay where "ay = toY - h * sin (atan2 dy dx + - (pi / 6))"
  define bx where "bx = toX - h * cos (atan2 dy dx + pi / 6)"
  define "by" where "by = toY - h * sin (atan2 dy dx + pi / 6)"
  have h0: "0 \<le> h" using brush by (simp add: h_def headLength_def)
  have m: "fromX - toX = - dx" "fromY - toY = - dy" by (simp_all add: dx_def dy_def)
  have a: "(ax - toX)\<^sup>2 + (ay - toY)\<^sup>2 = h\<^sup>2"
    "(ax - toX) * (- dx) + (ay - toY) * (- dy) = h * sqrt (dx\<^sup>2 + dy\<^sup>2) * cos (- (pi / 6))"
    "(- dx) * (ay - toY) - (- dy) * (ax - toX) = h * sqrt (dx\<^sup>2 + dy\<^sup>2) * sin (- (pi / 6))"
    unfolding ax_def ay_def by (rule back_vertex)+
  have b: "(bx - toX)\<^sup>2 + (by - toY)\<^sup>2 = h\<^sup>2"
    "(bx - toX) * (- dx) + (by - toY) * (- dy) = h * sqrt (dx\<^sup>2 + dy\<^sup>2) * cos (pi / 6)"
    "(- dx) * (by - toY) - (- dy) * (bx - toX) = h * sqrt (dx\<^sup>2 + dy\<^sup>2) * sin (pi / 6)"
    unfolding bx_def by_def by (rule back_vertex)+
  have "drawArrow brush c fromX fromY toX toY =
             c\<lparr>ctx := (ctx c)\<lparr>fillStyle := strokeStyle (ctx c)\<rparr>,
               path := [MoveTo toX toY, LineTo ax ay, LineTo bx by, LineTo toX toY],
               bitmap := bitmap c @
                 [Stroke [MoveTo fromX fromY, LineTo toX toY] (ctx c),
                  Fill [MoveTo toX toY, LineTo ax ay, LineTo bx by, LineTo toX toY]
                    ((ctx c)\<lparr>fillStyle := strokeStyle (ctx c)\<rparr>)]\<rparr>"
    unfolding ax_def ay_def bx_def by_def h_def dx_def dy_def by (rule drawArrow_unfold)
  moreover have "headLength brush = 15 + real_of_int brush" by (simp add: headLength_def)
  moreover have "sqrt ((ax - toX)\<^sup>2 + (ay - toY)\<^sup>2) = h"
    using h0 by (simp add: a(1))
  moreover have "sqrt ((bx - toX)\<^sup>2 + (by - toY)\<^sup>2) = h"
    using h0 by (simp add: b(1))
  moreover have "(ax - toX) * (fromX - toX) + (ay - toY) * (fromY - toY) =
             h * sqrt (dx\<^sup>2 + dy\<^sup>2) * cos (pi / 6)"
    unfolding m using a(2) by (simp only: cos_minus)
  moreover have "(bx - toX) * (fromX - toX) + (by - toY) * (fromY - toY) =
             h * sqrt (dx\<^sup>2 + dy\<^sup>2) * cos (pi / 6)"
    unfolding m by (rule b(2))
  moreover have "(fromX - toX) * (ay - toY) - (fromY - toY) * (ax - toX) =
             - (h * sqrt (dx\<^sup>2 + dy\<^sup>2) * sin (pi / 6))"
    unfolding m using a(3) by (simp only: sin_minus mult_minus_right)
  moreover have "(fromX - toX) * (by - toY) - (fromY - toY) * (bx - toX) =
             h * sqrt (dx\<^sup>2 + dy\<^sup>2) * sin (pi / 6)"
    unfolding m by (rule b(3))
  ultimately show ?thesis
    unfolding h_def dx_def dy_def by blast
qed

theorem drawArrow_geometry_witness:
  "(0::int) \<le> 4 \<and> headLength 4 = 19 \<and>
   (\<exists>ax ay bx by.
      bitmap (drawArrow 4 (blank_canvas 300 150) 0 0 100 0) =
        [Stroke [MoveTo 0 0, LineTo 100 0] default_ctx,
         Fill [MoveTo 100 0, LineTo ax ay, LineTo bx by, LineTo 100 0] default_ctx] \<and>
      sqrt ((ax - 100)\<^sup>2 + ay\<^sup>2) = 19 \<and> sqrt ((bx - 100)\<^sup>2 + by\<^sup>2) = 19 \<and>
      (ax - 100) * (- 100) = 19 * 100 * cos (pi / 6) \<and>
      (bx - 100) * (- 100) = 19 * 100 * cos (pi / 6) \<and>
      (- 100) * ay = - (19 * 100 * sin (pi / 6)) \<and>
      (- 100) * by = 19 * 100 * sin (pi / 6))"
proof -
  have h: "(0::int) \<le> 4" by simp
  have l: "headLength 4 = 19" by (simp add: headLength_def)
  have c: "ctx (blank_canvas 300 150) = default_ctx" "bitmap (blank_canvas 300 150) = []"
    "default_ctx\<lparr>fillStyle := strokeStyle default_ctx\<rparr> = default_ctx"
    by (simp_all add: blank_canvas_def default_ctx_def)
  from drawArrow_geometry[OF h, of "blank_canvas 300 150" 0 0 100 0]
  obtain ax ay bx "by" where
    d: "drawArrow 4 (blank_canvas 300 150) 0 0 100 0 =
          (blank_canvas 300 150)
          \<lparr>ctx := (ctx (blank_canvas 300 150))
                  \<lparr>fillStyle := strokeStyle (ctx (blank_canvas 300 150))\<rparr>,
           path := [MoveTo 100 0, LineTo ax ay, LineTo bx by, LineTo 100 0],
           bitmap := bitmap (blank_canvas 300 150) @
             [Stroke [MoveTo 0 0, LineTo 100 0] (ctx (blank_canvas 300 150)),
              Fill [MoveTo 100 0, LineTo ax ay, LineTo bx by, LineTo 100 0]
                ((ctx (blank_canvas 300 150))
                 \<lparr>fillStyle := strokeStyle (ctx (blank_canvas 300 150))\<rparr>)]\<rparr>"
    and g: "sqrt ((ax - 100)\<^sup>2 + (ay - 0)\<^sup>2) = headLength 4"
      "sqrt ((bx - 100)\<^sup>2 + (by - 0)\<^sup>2) = headLength 4"
      "(ax - 100) * (0 - 100) + (ay - 0) * (0 - 0) =
         headLength 4 * sqrt ((100 - 0)\<^sup>2 + (0 - 0)\<^sup>2) * cos (pi / 6)"
      "(bx - 100) * (0 - 100) + (by - 0) * (0 - 0) =
         headLength 4 * sqrt ((100 - 0)\<^sup>2 + (0 - 0)\<^sup>2) * cos (pi / 6)"
      "(0 - 100) * (ay - 0) - (0 - 0) * (ax - 100) =
         - (headLength 4 * sqrt ((100 - 0)\<^sup>2 + (0 - 0)\<^sup>2) * sin (pi / 6))"
      "(0 - 100) * (by - 0) - (0 - 0) * (bx - 100) =
         headLength 4 * sqrt ((100 - 0)\<^sup>2 + (0 - 0)\<^sup>2) * sin (pi / 6)"
    by blast
  have b: "bitmap (drawArrow 4 (blank_canvas 300 150) 0 0 100 0) =
        [Stroke [MoveTo 0 0, LineTo 100 0] default_ctx,
         Fill [MoveTo 100 0, LineTo ax ay, LineTo bx by, LineTo 100 0] default_ctx]"
    unfolding d c by simp
  have "sqrt ((ax - 100)\<^sup>2 + ay\<^sup>2) = 19" "sqrt ((bx - 100)\<^sup>2 + by\<^sup>2) = 19"
    "(ax - 100) * (- 100) = 19 * 100 * cos (pi / 6)"
    "(bx - 100) * (- 100) = 19 * 100 * cos (pi / 6)"
    "(- 100) * ay = - (19 * 100 * sin (pi / 6))"
    "(- 100) * by = 19 * 100 * sin (pi / 6)"
    using g unfolding l by simp_all
  with h l b show ?thesis by blast
qed

text \<open>
  The arrow of the example computed: the back vertices are
  \<open>(100 - 19 * sqrt 3 / 2, 19 / 2)\<close> and \<open>(100 - 19 * sqrt 3 / 2, - 19 / 2)\<close>.
\<close>

lemma drawArrow_example:
  "bitmap (drawArrow 4 (blank_canvas 300 150) 0 0 100 0) =
     [Stroke [MoveTo 0 0, LineTo 100 0] default_ctx,
      Fill [MoveTo 100 0, LineTo (100 - 19 * sqrt 3 / 2) (19 / 2),
            LineTo (100 - 19 * sqrt 3 / 2) (- 19 / 2), LineTo 100 0] default_ctx]"
  by (simp add: drawArrow_unfold headLength_def atan2_def blank_canvas_def default_ctx_def
      cos_30 sin_30)

section \<open>The image sent for editing\<close>

text \<open>The three headers the pattern names are removed; the rest of the string is sent.\<close>

lemma cleanBase64_listed:
  "cleanBase64 (''data:image/png;base64,'' @ payload) = payload"
  "cleanBase64 (''data:image/jpeg;base64,'' @ payload) = payload"
  "cleanBase64 (''data:image/webp;base64,'' @ payload) = payload"
  by (simp_all add: cleanBase64_def)

text \<open>
  C9. A data-URI header of another image type is not removed: the data URI of an uploaded
  GIF is sent whole, header included.
\<close>

theorem cleanBase64_gif:
  "cleanBase64 ''data:image/gif;base64,R0lGODlhAQABAAAAACw='' =
     ''data:image/gif;base64,R0lGODlhAQABAAAAACw=''"
  by (simp add: cleanBase64_def)

end
